theory Spec2Isabelle
  imports Complex_Main "HOL-Library.Char_ord" "HOL-Library.List_Lexorder"
    "HOL-Library.Multiset"
begin

section \<open>Python values used by the family and matrix code\<close>

text \<open>
  The exceptions the modelled functions can raise. A function that may raise returns
  \<open>py_error + 'a\<close>, with \<open>Inl\<close> for the exception.
\<close>

datatype py_error = ValueError | KeyError | IndexError

text \<open>
  A Python \<open>dict\<close> with string keys is an association list in insertion order with
  distinct keys; a Python \<open>set\<close> of strings is the list of its members in iteration
  order. The members of such a list are what matters, \<open>len\<close> is the number of
  distinct members.
\<close>

type_synonym 'v dict = "(string \<times> 'v) list"
type_synonym py_set = "string list"

text \<open>\<open>d[k] = v\<close>: replaces the value in place when the key is there, appends otherwise.\<close>

fun dict_set :: "string \<Rightarrow> 'v \<Rightarrow> 'v dict \<Rightarrow> 'v dict" where
  "dict_set k v [] = [(k, v)]"
| "dict_set k v (p # ps) = (if fst p = k then (k, v) # ps else p # dict_set k v ps)"

text \<open>\<open>d[k]\<close>: raises KeyError on a missing key.\<close>

definition dict_get :: "'v dict \<Rightarrow> string \<Rightarrow> py_error + 'v" where
  "dict_get d k = (case map_of d k of None \<Rightarrow> Inl KeyError | Some v \<Rightarrow> Inr v)"

definition keys :: "'v dict \<Rightarrow> string list" where
  "keys d = map fst d"

text \<open>\<open>s.add(x)\<close> and \<open>len(a.intersection(b))\<close>.\<close>

definition set_add :: "string \<Rightarrow> py_set \<Rightarrow> py_set" where
  "set_add x s = (if x \<in> set s then s else s @ [x])"

definition len_intersection :: "py_set \<Rightarrow> py_set \<Rightarrow> nat" where
  "len_intersection a b = card (set a \<inter> set b)"

text \<open>\<open>s.startswith(p)\<close>.\<close>

definition startswith :: "string \<Rightarrow> string \<Rightarrow> bool" where
  "startswith s p = (take (length p) s = p)"

text \<open>
  \<open>s.rstrip()\<close>: drops trailing whitespace. Characters are bytes here, so the
  whitespace is the ASCII part of what Python strips: tab, line feed, vertical tab,
  form feed, carriage return, the four separators 0x1C to 0x1F and space.
\<close>

definition is_space :: "char \<Rightarrow> bool" where
  "is_space c = ((9::nat) \<le> of_char c \<and> of_char c \<le> (13::nat)
                 \<or> (28::nat) \<le> of_char c \<and> of_char c \<le> (32::nat))"

definition rstrip :: "string \<Rightarrow> string" where
  "rstrip s = rev (dropWhile is_space (rev s))"

text \<open>\<open>s.split(sep)\<close> for a one-character separator: always at least one field.\<close>

fun split_on :: "char \<Rightarrow> string \<Rightarrow> string list" where
  "split_on sep [] = [[]]"
| "split_on sep (c # cs) =
     (if c = sep then [] # split_on sep cs
      else (case split_on sep cs of [] \<Rightarrow> [[c]] | f # fs \<Rightarrow> (c # f) # fs))"

text \<open>
  \<open>s.replace(old, new)\<close>, left to right and without overlaps. Both call sites pass a
  non-empty constant for \<open>old\<close>; Python's behaviour for an empty \<open>old\<close> is not part
  of this model.
\<close>

fun replace :: "string \<Rightarrow> string \<Rightarrow> string \<Rightarrow> string" where
  "replace old new [] = []"
| "replace old new (c # cs) =
     (if old \<noteq> [] \<and> take (length old) (c # cs) = old
      then new @ replace old new (drop (length old - 1) cs)
      else c # replace old new cs)"

text \<open>\<open>re.sub(r"[^A-Za-z0-9_-]", "", s)\<close>: keeps letters, digits, underscore and hyphen.\<close>

definition allowed_char :: "char \<Rightarrow> bool" where
  "allowed_char c =
     ((65::nat) \<le> of_char c \<and> of_char c \<le> (90::nat)
      \<or> (97::nat) \<le> of_char c \<and> of_char c \<le> (122::nat)
      \<or> (48::nat) \<le> of_char c \<and> of_char c \<le> (57::nat)
      \<or> c = CHR ''_'' \<or> c = CHR ''-'')"

definition sanitize :: "string \<Rightarrow> string" where
  "sanitize s = filter allowed_char (replace '' '' ''_'' s)"

text \<open>The tab character, as a one-character string.\<close>

definition tab :: string where
  "tab = [CHR 0x09]"

text \<open>\<open>line[i]\<close> on a list of fields: IndexError when out of range.\<close>

definition field :: "string list \<Rightarrow> nat \<Rightarrow> py_error + string" where
  "field fs i = (if i < length fs then Inr (fs ! i) else Inl IndexError)"

section \<open>SummaryParser: \<open>map_clusters_to_names\<close>\<close>

text \<open>
  The file is the list of its lines, each without its line terminator (which
  \<open>rstrip\<close> removes anyway); \<open>readline\<close> returning the empty string is the end of
  the list. The state of the loop is the three dictionaries and the flag
  \<open>wrong_line_format\<close>; the flag decides whether the warning is written to stderr
  after the loop.
\<close>

record summary =
  genomes_with_clusters :: "py_set dict"
  bgcs_with_names :: "string dict"
  clusters_with_types :: "string dict"
  wrong_line_format :: bool

definition empty_summary :: summary where
  "empty_summary = \<lparr>genomes_with_clusters = [], bgcs_with_names = [],
                     clusters_with_types = [], wrong_line_format = False\<rparr>"

text \<open>One pass of the body of the \<open>while\<close> loop.\<close>

definition parse_row :: "summary \<Rightarrow> string \<Rightarrow> py_error + summary" where
  "parse_row st raw =
     (let line = split_on (CHR 0x09) (rstrip raw);
          st1 = (if length line \<noteq> 7 then st\<lparr>wrong_line_format := True\<rparr> else st);
          cluster = line ! 0
      in case (if startswith cluster ''BGC''
               then (case field line 2 of
                       Inl e \<Rightarrow> Inl e
                     | Inr name \<Rightarrow>
                         Inr (st1\<lparr>bgcs_with_names :=
                                dict_set cluster
                                  (sanitize (replace '' biosynthetic gene cluster'' '''' name))
                                  (bgcs_with_names st1)\<rparr>))
               else (case field line 5 of
                       Inl e \<Rightarrow> Inl e
                     | Inr g \<Rightarrow>
                         (let genome = sanitize g
                          in Inr (st1\<lparr>genomes_with_clusters :=
                                    (case map_of (genomes_with_clusters st1) genome of
                                       None \<Rightarrow> dict_set genome [cluster] (genomes_with_clusters st1)
                                     | Some cs \<Rightarrow> dict_set genome (set_add cluster cs)
                                                   (genomes_with_clusters st1))\<rparr>))))
         of Inl e \<Rightarrow> Inl e
          | Inr st2 \<Rightarrow>
              (case field line 4 of
                 Inl e \<Rightarrow> Inl e
               | Inr metabolite_type \<Rightarrow>
                   Inr (st2\<lparr>clusters_with_types :=
                          dict_set cluster metabolite_type (clusters_with_types st2)\<rparr>)))"

fun parse_rows :: "summary \<Rightarrow> string list \<Rightarrow> py_error + summary" where
  "parse_rows st [] = Inr st"
| "parse_rows st (l # ls) =
     (case parse_row st l of Inl e \<Rightarrow> Inl e | Inr st' \<Rightarrow> parse_rows st' ls)"

definition map_clusters_to_names :: "string list \<Rightarrow> py_error + summary" where
  "map_clusters_to_names file =
     (case file of
        [] \<Rightarrow> Inl ValueError
      | header # rows \<Rightarrow>
          (if \<not> startswith header ''BGC'' then Inl ValueError
           else parse_rows empty_summary rows))"

text \<open>The cluster ids held by the two mappings.\<close>

definition genome_cluster_ids :: "summary \<Rightarrow> string set" where
  "genome_cluster_ids st = (\<Union>cs \<in> snd ` set (genomes_with_clusters st). set cs)"

definition reference_ids :: "summary \<Rightarrow> string set" where
  "reference_ids st = set (keys (bgcs_with_names st))"

definition ids_separated :: "summary \<Rightarrow> bool" where
  "ids_separated st =
     ((\<forall>c \<in> genome_cluster_ids st. \<not> startswith c ''BGC'')
      \<and> (\<forall>k \<in> reference_ids st. startswith k ''BGC''))"

section \<open>NetworkMerger: \<open>merge_all_bigscape_networks\<close>\<close>

text \<open>
  A row of a \<open>.network\<close> file, reduced to the three columns the code selects. The
  raw distance is a rational number: the mean is the exact one, not the rounded
  floating-point one.
\<close>

record edge =
  clustername_1 :: string
  clustername_2 :: string
  raw_distance :: rat

text \<open>
  An entry of a result directory: its name, whether it is a regular file, and the rows
  \<open>read_csv\<close> gives for it. A result directory is the list of its entries in the
  order \<open>iterdir\<close> yields them.
\<close>

record dir_entry =
  entry_name :: string
  is_file :: bool
  network_rows :: "edge list"

definition endswith :: "string \<Rightarrow> string \<Rightarrow> bool" where
  "endswith s suffix =
     (length suffix \<le> length s \<and> drop (length s - length suffix) s = suffix)"

text \<open>
  \<open>dir_entry.match("*_c{:.2f}.network".format(bigscape_cutoff))\<close>: the pattern has
  one component, so it is matched against the entry's name, and the star matches any
  prefix. The cutoff arrives as its two-decimal text (\<open>0.30\<close> for the default).
\<close>

definition matches_network_pattern :: "string \<Rightarrow> string \<Rightarrow> bool" where
  "matches_network_pattern cutoff_text name =
     endswith name (''_c'' @ cutoff_text @ ''.network'')"

text \<open>
  The inner loop over one directory. \<open>network_values\<close> is \<open>None\<close> while it is
  still the empty frame without columns, \<open>Some rows\<close> once a file has been appended.
  A second matching file in the same directory raises ValueError.
\<close>

fun scan_dir ::
  "string \<Rightarrow> edge list option \<Rightarrow> bool \<Rightarrow> dir_entry list \<Rightarrow> py_error + edge list option"
where
  "scan_dir cutoff_text network_values network_found [] = Inr network_values"
| "scan_dir cutoff_text network_values network_found (e # es) =
     (if is_file e \<and> matches_network_pattern cutoff_text (entry_name e)
      then (if \<not> network_found
            then scan_dir cutoff_text
                   (Some ((case network_values of None \<Rightarrow> [] | Some rows \<Rightarrow> rows)
                          @ network_rows e))
                   True es
            else Inl ValueError)
      else scan_dir cutoff_text network_values network_found es)"

fun scan_dirs ::
  "string \<Rightarrow> edge list option \<Rightarrow> dir_entry list list \<Rightarrow> py_error + edge list option"
where
  "scan_dirs cutoff_text network_values [] = Inr network_values"
| "scan_dirs cutoff_text network_values (result_dir # rest) =
     (case scan_dir cutoff_text network_values False result_dir of
        Inl e \<Rightarrow> Inl e
      | Inr network_values' \<Rightarrow> scan_dirs cutoff_text network_values' rest)"

text \<open>The column \<open>Match_name\<close>: the two cluster names, concatenated.\<close>

definition match_name :: "edge \<Rightarrow> string" where
  "match_name e = clustername_1 e @ clustername_2 e"

definition mean :: "rat list \<Rightarrow> rat" where
  "mean ds = sum_list ds / of_nat (length ds)"

text \<open>\<open>groupby('Match_name')['Raw distance'].mean()\<close>, read at one key.\<close>

definition network_matches :: "edge list \<Rightarrow> string \<Rightarrow> rat" where
  "network_matches network_values k =
     mean (map raw_distance (filter (\<lambda>e. match_name e = k) network_values))"

text \<open>\<open>drop_duplicates()\<close>: the first of equal rows stays, in its place.\<close>

definition drop_duplicates :: "'a list \<Rightarrow> 'a list" where
  "drop_duplicates xs = rev (remdups (rev xs))"

text \<open>
  The inner join puts the group's mean beside every row, in the order of the rows;
  duplicates are dropped while \<open>Match_name\<close> is still a column, then the column goes.
\<close>

definition networks_combined :: "edge list \<Rightarrow> edge list" where
  "networks_combined network_values =
     map snd (drop_duplicates
       (map (\<lambda>e. (match_name e,
                   e\<lparr>raw_distance := network_matches network_values (match_name e)\<rparr>))
            network_values))"

text \<open>
  When no directory had a matching file, \<open>network_values\<close> has no column
  \<open>Clustername 1\<close> and the lookup raises KeyError.
\<close>

definition merge_all_bigscape_networks ::
  "dir_entry list list \<Rightarrow> string \<Rightarrow> py_error + edge list"
where
  "merge_all_bigscape_networks results cutoff_text =
     (case scan_dirs cutoff_text None results of
        Inl e \<Rightarrow> Inl e
      | Inr None \<Rightarrow> Inl KeyError
      | Inr (Some network_values) \<Rightarrow> Inr (networks_combined network_values))"




section \<open>FamilyDetector: \<open>get_connected_from_df\<close>\<close>

record compound_family =
  compound_class :: string
  clusters :: py_set

text \<open>\<open>__len__\<close> of a family: the number of its clusters.\<close>

definition len_family :: "compound_family \<Rightarrow> nat" where
  "len_family f = card (set (clusters f))"

text \<open>
  The graph \<open>from_pandas_edgelist\<close> builds is the edge table itself: its nodes are
  the cluster names in the order in which the rows first mention them, and the
  neighbours of a node are the other ends of the rows it is on.
\<close>

definition nodes_of :: "edge list \<Rightarrow> string list" where
  "nodes_of df = drop_duplicates (concat (map (\<lambda>e. [clustername_1 e, clustername_2 e]) df))"

definition adjacent :: "edge list \<Rightarrow> string \<Rightarrow> string list" where
  "adjacent df v =
     concat (map (\<lambda>e. (if clustername_1 e = v then [clustername_2 e] else [])
                       @ (if clustername_2 e = v then [clustername_1 e] else [])) df)"

text \<open>
  The breadth-first search behind \<open>connected_components\<close>: while the next level is
  not empty, its nodes not yet seen are added to \<open>seen\<close> and their neighbours form
  the level after.
\<close>

function plain_bfs :: "edge list \<Rightarrow> string list \<Rightarrow> string list \<Rightarrow> string list" where
  "plain_bfs df seen nextlevel =
     (if nextlevel = [] then seen
      else (let fresh = drop_duplicates (filter (\<lambda>v. v \<notin> set seen) nextlevel)
            in plain_bfs df (seen @ fresh) (concat (map (adjacent df) fresh))))"
  by pat_completeness auto
termination
proof (relation "measures
    [\<lambda>(df, seen, nextlevel). card ((set (nodes_of df) \<union> set nextlevel) - set seen),
     \<lambda>(df, seen, nextlevel). length nextlevel]")
  show "wf (measures
    [\<lambda>(df :: edge list, seen :: string list, nextlevel :: string list).
        card ((set (nodes_of df) \<union> set nextlevel) - set seen),
     \<lambda>(df, seen, nextlevel). length nextlevel])"
    by (rule wf_measures)
next
  fix df :: "edge list" and seen nextlevel fresh :: "string list"
  assume ne: "nextlevel \<noteq> []"
    and fresh: "fresh = drop_duplicates (filter (\<lambda>v. v \<notin> set seen) nextlevel)"
  let ?next = "concat (map (adjacent df) fresh)"
  have adj: "set ?next \<subseteq> set (nodes_of df)"
    by (auto simp: adjacent_def nodes_of_def drop_duplicates_def split: if_splits)
  have fr: "set fresh = set nextlevel - set seen"
    by (auto simp: fresh drop_duplicates_def)
  show "((df, seen @ fresh, ?next), (df, seen, nextlevel))
        \<in> measures
            [\<lambda>(df, seen, nextlevel). card ((set (nodes_of df) \<union> set nextlevel) - set seen),
             \<lambda>(df, seen, nextlevel). length nextlevel]"
  proof (cases "fresh = []")
    case True
    with fr have "set nextlevel \<subseteq> set seen" by auto
    then have "(set (nodes_of df) \<union> set nextlevel) - set seen = set (nodes_of df) - set seen"
      by auto
    with ne True show ?thesis by simp
  next
    case False
    then obtain v where v: "v \<in> set nextlevel" "v \<notin> set seen"
      using fr by (cases fresh) auto
    have "(set (nodes_of df) \<union> set ?next) - set (seen @ fresh)
            \<subset> (set (nodes_of df) \<union> set nextlevel) - set seen"
      using adj fr v by auto
    then have "card ((set (nodes_of df) \<union> set ?next) - set (seen @ fresh))
                 < card ((set (nodes_of df) \<union> set nextlevel) - set seen)"
      by (intro psubset_card_mono) simp_all
    then show ?thesis by simp
  qed
qed

declare plain_bfs.simps [simp del]

text \<open>
  \<open>connected_components\<close>: every node not yet in a component starts a search, and
  what the search sees is the next component.
\<close>

fun components_from :: "edge list \<Rightarrow> string list \<Rightarrow> string list \<Rightarrow> py_set list" where
  "components_from df seen [] = []"
| "components_from df seen (v # vs) =
     (if v \<in> set seen then components_from df seen vs
      else (let c = plain_bfs df [] [v] in c # components_from df (seen @ c) vs))"

definition connected_components :: "edge list \<Rightarrow> py_set list" where
  "connected_components df = components_from df [] (nodes_of df)"

text \<open>\<open>sep.join(xs)\<close>.\<close>

fun join :: "string \<Rightarrow> string list \<Rightarrow> string" where
  "join sep [] = []"
| "join sep [x] = x"
| "join sep (x # y # ys) = x @ sep @ join sep (y # ys)"

text \<open>
  The set comprehension over a component's members: the type of each member is looked
  up in turn, and the first missing one raises KeyError.
\<close>

fun types_of :: "string dict \<Rightarrow> py_set \<Rightarrow> py_error + string list" where
  "types_of cluster_types [] = Inr []"
| "types_of cluster_types (component # rest) =
     (case dict_get cluster_types component of
        Inl e \<Rightarrow> Inl e
      | Inr t \<Rightarrow> (case types_of cluster_types rest of
                    Inl e \<Rightarrow> Inl e
                  | Inr ts \<Rightarrow> Inr (t # ts)))"

text \<open>
  The loop over the components. The distinct types are joined in the order of their
  first member; Python leaves the order of a set open.
\<close>

fun trim_components :: "string dict \<Rightarrow> py_set list \<Rightarrow> py_error + compound_family list" where
  "trim_components cluster_types [] = Inr []"
| "trim_components cluster_types (components # rest) =
     (if \<not> list_all (\<lambda>component. startswith component ''BGC'') components
      then (case types_of cluster_types components of
              Inl e \<Rightarrow> Inl e
            | Inr ts \<Rightarrow>
                (case trim_components cluster_types rest of
                   Inl e \<Rightarrow> Inl e
                 | Inr fams \<Rightarrow>
                     Inr (\<lparr>compound_class = join ''_'' (drop_duplicates ts),
                           clusters = components\<rparr> # fams)))
      else trim_components cluster_types rest)"

definition get_connected_from_df ::
  "edge list \<Rightarrow> string dict \<Rightarrow> py_error + compound_family list"
where
  "get_connected_from_df network_df cluster_types =
     trim_components cluster_types (connected_components network_df)"

section \<open>FamilyNamer: \<open>get_families\<close>\<close>

text \<open>\<open>str(n)\<close> for a natural number: its decimal digits.\<close>

definition digit_char :: "nat \<Rightarrow> char" where
  "digit_char d = char_of (48 + d)"

fun str_nat :: "nat \<Rightarrow> string" where
  "str_nat n = (if n < 10 then [digit_char n] else str_nat (n div 10) @ [digit_char (n mod 10)])"

declare str_nat.simps [simp del]

text \<open>\<open>sub in s\<close> for strings.\<close>

fun is_substring :: "string \<Rightarrow> string \<Rightarrow> bool" where
  "is_substring sub [] = (sub = [])"
| "is_substring sub (c # cs) = (startswith (c # cs) sub \<or> is_substring sub cs)"

text \<open>
  The inner loop over a family's clusters: the name of a reference cluster is appended
  unless the name built so far contains it. The lookup in \<open>bgc_names\<close> happens only
  for a member with the prefix, and raises KeyError when the member is missing.
\<close>

fun add_bgc_names :: "string dict \<Rightarrow> string \<Rightarrow> py_set \<Rightarrow> py_error + string" where
  "add_bgc_names bgc_names family_name [] = Inr family_name"
| "add_bgc_names bgc_names family_name (component # rest) =
     (if startswith component ''BGC''
      then (case dict_get bgc_names component of
              Inl e \<Rightarrow> Inl e
            | Inr name \<Rightarrow>
                (if \<not> is_substring name family_name
                 then add_bgc_names bgc_names (family_name @ ''_'' @ name) rest
                 else add_bgc_names bgc_names family_name rest))
      else add_bgc_names bgc_names family_name rest)"

text \<open>
  \<open>sorted(connected_families, key=len, reverse=True)\<close>: a stable sort, so families
  of one size keep their order.
\<close>

definition sorted_families :: "compound_family list \<Rightarrow> compound_family list" where
  "sorted_families connected_families = rev (sort_key len_family (rev connected_families))"

text \<open>The outer loop, with the running index and the dictionary built so far.\<close>

fun name_families ::
  "string dict \<Rightarrow> nat \<Rightarrow> compound_family list \<Rightarrow> py_set dict \<Rightarrow> py_error + py_set dict"
where
  "name_families bgc_names index [] families_names = Inr families_names"
| "name_families bgc_names index (components # rest) families_names =
     (case add_bgc_names bgc_names (str_nat index @ ''_'' @ compound_class components)
             (clusters components) of
        Inl e \<Rightarrow> Inl e
      | Inr family_name \<Rightarrow>
          name_families bgc_names (Suc index) rest
            (dict_set family_name (clusters components) families_names))"

definition get_families :: "compound_family list \<Rightarrow> string dict \<Rightarrow> py_error + py_set dict" where
  "get_families connected_families bgc_names =
     name_families bgc_names 1 (sorted_families connected_families) []"

section \<open>MatrixBuilder and FamilyOrderer\<close>

text \<open>
  \<open>sorted(d.items())\<close>: the keys of a dictionary are distinct, so the pairs are
  ordered by their keys alone.
\<close>

definition sorted_items :: "'v dict \<Rightarrow> (string \<times> 'v) list" where
  "sorted_items d = sort_key fst d"

text \<open>The counts of one family, one for each genome in sorted order.\<close>

definition count_column :: "py_set dict \<Rightarrow> py_set \<Rightarrow> nat list" where
  "count_column clusters_in_genomes family_clusters =
     map (\<lambda>(genomes, clusters). len_intersection clusters family_clusters)
         (sorted_items clusters_in_genomes)"

text \<open>The loop that fills the ordered dictionary \<open>families_clusters\<close>.\<close>

fun count_families ::
  "py_set dict \<Rightarrow> py_set dict \<Rightarrow> string list \<Rightarrow> nat list dict \<Rightarrow> py_error + nat list dict"
where
  "count_families families_with_names clusters_in_genomes [] families_clusters =
     Inr families_clusters"
| "count_families families_with_names clusters_in_genomes (family # rest) families_clusters =
     (case dict_get families_with_names family of
        Inl e \<Rightarrow> Inl e
      | Inr family_clusters \<Rightarrow>
          count_families families_with_names clusters_in_genomes rest
            (dict_set family (count_column clusters_in_genomes family_clusters)
               families_clusters))"

text \<open>
  A data frame of counts: its columns, each a label with its values, and the labels of
  its rows. The constructor raises ValueError when a column does not have one value for
  every row.
\<close>

record data_frame =
  df_columns :: "nat list dict"
  df_index :: "string list"

definition data_frame_of :: "nat list dict \<Rightarrow> string list \<Rightarrow> py_error + data_frame" where
  "data_frame_of data index_labels =
     (if list_all (\<lambda>(label, col). length col = length index_labels) data
      then Inr \<lparr>df_columns = data, df_index = index_labels\<rparr>
      else Inl ValueError)"



text \<open>
  \<open>to_csv()\<close> with its defaults on a POSIX system: comma as separator, line feed as
  line terminator after every row, and a field quoted only when it contains the
  separator, the quote character or the line terminator; a row that is one empty field
  is written as two quote characters. The first row has the empty index label and then
  the column labels.
\<close>

definition needs_quoting :: "string \<Rightarrow> bool" where
  "needs_quoting s = list_ex (\<lambda>c. c = CHR '','' \<or> c = CHR 0x22 \<or> c = CHR 0x0A) s"

definition csv_field :: "string \<Rightarrow> string" where
  "csv_field s =
     (if needs_quoting s
      then [CHR 0x22] @ concat (map (\<lambda>c. if c = CHR 0x22 then [c, c] else [c]) s) @ [CHR 0x22]
      else s)"

definition csv_row :: "string list \<Rightarrow> string" where
  "csv_row cells =
     (if cells = [[]] then [CHR 0x22, CHR 0x22] else join '','' (map csv_field cells))
     @ [CHR 0x0A]"

definition frame_row :: "data_frame \<Rightarrow> nat \<Rightarrow> string list" where
  "frame_row df i = (df_index df ! i) # map (\<lambda>(label, col). str_nat (col ! i)) (df_columns df)"

definition to_csv :: "data_frame \<Rightarrow> string" where
  "to_csv df =
     concat (map csv_row (('''' # keys (df_columns df))
                          # map (frame_row df) [0..<length (df_index df)]))"

text \<open>
  \<open>get_absence_presence_matrix\<close>. The order of the leaves comes from scipy's
  \<open>linkage\<close> and \<open>leaves_list\<close> on the transposed table, one row of counts for each
  family; the two together are the parameter \<open>leaves_of\<close>. A leaf that is no row
  number raises IndexError at the lookup of its label.
\<close>

fun select_columns :: "nat list dict \<Rightarrow> nat list \<Rightarrow> py_error + nat list dict" where
  "select_columns cols [] = Inr []"
| "select_columns cols (leaf_ind # rest) =
     (if leaf_ind < length cols
      then (case select_columns cols rest of
              Inl e \<Rightarrow> Inl e
            | Inr chosen \<Rightarrow> Inr (cols ! leaf_ind # chosen))
      else Inl IndexError)"

definition absence_presence_frame ::
  "(nat list list \<Rightarrow> py_error + nat list) \<Rightarrow> py_set dict \<Rightarrow> py_set dict
     \<Rightarrow> py_error + data_frame"
where
  "absence_presence_frame leaves_of families_with_names clusters_in_genomes =
     (case count_families families_with_names clusters_in_genomes
             (sort (keys families_with_names)) [] of
        Inl e \<Rightarrow> Inl e
      | Inr families_clusters \<Rightarrow>
          (case data_frame_of families_clusters (sort (keys clusters_in_genomes)) of
             Inl e \<Rightarrow> Inl e
           | Inr absence_presence_tmp \<Rightarrow>
               (case leaves_of (map snd (df_columns absence_presence_tmp)) of
                  Inl e \<Rightarrow> Inl e
                | Inr transposed_leaves \<Rightarrow>
                    (case select_columns (df_columns absence_presence_tmp) transposed_leaves of
                       Inl e \<Rightarrow> Inl e
                     | Inr reordered \<Rightarrow>
                         Inr (absence_presence_tmp\<lparr>df_columns := reordered\<rparr>)))))"

definition get_absence_presence_matrix ::
  "(nat list list \<Rightarrow> py_error + nat list) \<Rightarrow> py_set dict \<Rightarrow> py_set dict \<Rightarrow> py_error + string"
where
  "get_absence_presence_matrix leaves_of families_with_names clusters_in_genomes =
     (case absence_presence_frame leaves_of families_with_names clusters_in_genomes of
        Inl e \<Rightarrow> Inl e
      | Inr absence_presence_reordered \<Rightarrow> Inr (''#NAMES'' @ to_csv absence_presence_reordered))"

text \<open>
  \<open>parse_family_order\<close>: the first line of the file, stripped and split at commas; a
  token that was seen before is a duplicate, and any duplicate raises ValueError.
\<close>

fun duplicates_of :: "string list \<Rightarrow> string list \<Rightarrow> string list" where
  "duplicates_of numbers_seen [] = []"
| "duplicates_of numbers_seen (number # rest) =
     (if number \<in> set numbers_seen
      then number # duplicates_of (number # numbers_seen) rest
      else duplicates_of (number # numbers_seen) rest)"

definition parse_family_order :: "string list \<Rightarrow> py_error + string list" where
  "parse_family_order file =
     (let family_numbers = split_on (CHR '','') (rstrip (case file of [] \<Rightarrow> [] | l # ls \<Rightarrow> l))
      in if duplicates_of [] family_numbers \<noteq> [] then Inl ValueError else Inr family_numbers)"

text \<open>
  \<open>get_preordered_matrix\<close>: for each token in turn, every family name that starts
  with the token and an underscore.
\<close>

definition families_by_order :: "py_set dict \<Rightarrow> string list \<Rightarrow> string list" where
  "families_by_order families_with_names family_order =
     concat (map (\<lambda>family_number.
                    filter (\<lambda>x. startswith x (family_number @ ''_'')) (keys families_with_names))
                 family_order)"

definition preordered_frame ::
  "py_set dict \<Rightarrow> py_set dict \<Rightarrow> string list \<Rightarrow> py_error + data_frame"
where
  "preordered_frame families_with_names clusters_in_genomes family_order =
     (if \<not> length families_with_names = length family_order then Inl ValueError
      else (case count_families families_with_names clusters_in_genomes
                   (families_by_order families_with_names family_order) [] of
              Inl e \<Rightarrow> Inl e
            | Inr families_clusters \<Rightarrow>
                data_frame_of families_clusters (sort (keys clusters_in_genomes))))"

definition get_preordered_matrix ::
  "py_set dict \<Rightarrow> py_set dict \<Rightarrow> string list \<Rightarrow> py_error + string"
where
  "get_preordered_matrix families_with_names clusters_in_genomes family_order =
     (case preordered_frame families_with_names clusters_in_genomes family_order of
        Inl e \<Rightarrow> Inl e
      | Inr absence_presence_df \<Rightarrow> Inr (''#NAMES'' @ to_csv absence_presence_df))"

section \<open>The tab-separated matrix of \<open>bigscape_to_matrix\<close>\<close>

text \<open>
  The last part of \<open>bigscape_to_matrix\<close>, from the sorting of the family names on,
  with the two dictionaries built before it as arguments. Python's \<open>int\<close> is the
  parameter \<open>int_of\<close>, \<open>None\<close> where \<open>int\<close> raises ValueError.
\<close>

fun ints_of :: "(string \<Rightarrow> int option) \<Rightarrow> string list \<Rightarrow> py_error + (int \<times> string) list" where
  "ints_of int_of [] = Inr []"
| "ints_of int_of (family # rest) =
     (case int_of family of
        None \<Rightarrow> Inl ValueError
      | Some n \<Rightarrow> (case ints_of int_of rest of
                     Inl e \<Rightarrow> Inl e
                   | Inr keyed \<Rightarrow> Inr ((n, family) # keyed)))"

fun family_counts :: "py_set dict \<Rightarrow> py_set \<Rightarrow> string list \<Rightarrow> py_error + string list" where
  "family_counts families_with_clusters genome_clusters [] = Inr []"
| "family_counts families_with_clusters genome_clusters (family # rest) =
     (case dict_get families_with_clusters family of
        Inl e \<Rightarrow> Inl e
      | Inr family_clusters \<Rightarrow>
          (case family_counts families_with_clusters genome_clusters rest of
             Inl e \<Rightarrow> Inl e
           | Inr row \<Rightarrow> Inr (str_nat (len_intersection genome_clusters family_clusters) # row)))"

fun matrix_rows ::
  "py_set dict \<Rightarrow> string list \<Rightarrow> string \<Rightarrow> (string \<times> py_set) list \<Rightarrow> py_error + string"
where
  "matrix_rows families_with_clusters all_families absence_presence_matrix [] =
     Inr absence_presence_matrix"
| "matrix_rows families_with_clusters all_families absence_presence_matrix
     ((genome, genome_clusters) # rest) =
     (case family_counts families_with_clusters genome_clusters all_families of
        Inl e \<Rightarrow> Inl e
      | Inr absence_presence_row \<Rightarrow>
          matrix_rows families_with_clusters all_families
            (absence_presence_matrix @ [CHR 0x0A] @ genome @ tab
               @ join tab absence_presence_row)
            rest)"

definition bigscape_matrix_text ::
  "(string \<Rightarrow> int option) \<Rightarrow> py_set dict \<Rightarrow> py_set dict \<Rightarrow> py_error + string"
where
  "bigscape_matrix_text int_of families_with_clusters genomes_to_clusters =
     (case ints_of int_of (keys families_with_clusters) of
        Inl e \<Rightarrow> Inl e
      | Inr keyed \<Rightarrow>
          (let all_families = map snd (sort_key fst keyed)
           in matrix_rows families_with_clusters all_families
                (''#NAMES'' @ tab @ join tab all_families)
                (sorted_items genomes_to_clusters)))"

text \<open>The dictionaries of the repository's matrix tests.\<close>

definition fake_families :: "py_set dict" where
  "fake_families =
     [(''1_test'', [''Cluster_1'', ''Cluster_2'', ''Cluster_3'']),
      (''2_test'', [''Cluster_4'', ''Cluster_5''])]"

definition fake_genomes :: "py_set dict" where
  "fake_genomes =
     [(''Test_org_1'', [''Cluster_1'']),
      (''Test_org_2'', [''Cluster_3'', ''Cluster_4'']),
      (''Test_org_3'', [''Cluster_5''])]"

text \<open>Families named by numbers, as the clustering files of \<open>bigscape_to_matrix\<close> name them.\<close>

definition numbered_families :: "py_set dict" where
  "numbered_families =
     [(''2'', [''Cluster_4'', ''Cluster_5'']),
      (''1'', [''Cluster_1'', ''Cluster_2'', ''Cluster_3''])]"

text \<open>A reading of one-digit family names, enough for the example.\<close>

definition digit_of :: "string \<Rightarrow> int option" where
  "digit_of s =
     (case s of
        [c] \<Rightarrow> (if (48::nat) \<le> of_char c \<and> of_char c \<le> (57::nat)
                then Some (int (of_char c) - 48) else None)
      | _ \<Rightarrow> None)"




text \<open>Two result directories whose rows have different cluster pairs and one \<open>Match_name\<close>.\<close>

definition colliding_result_dirs :: "dir_entry list list" where
  "colliding_result_dirs =
     [[\<lparr>entry_name = ''mix_c0.30.network'', is_file = True,
        network_rows = [\<lparr>clustername_1 = ''A'', clustername_2 = ''BC'',
                         raw_distance = 1 / 5\<rparr>]\<rparr>],
      [\<lparr>entry_name = ''NRPS_c0.30.network'', is_file = True,
        network_rows = [\<lparr>clustername_1 = ''AB'', clustername_2 = ''C'',
                         raw_distance = 3 / 5\<rparr>]\<rparr>]]"

text \<open>
  A summary file with a header, one well-formed row and a blank line after it.
\<close>

definition summary_with_blank_line :: "string list" where
  "summary_with_blank_line =
     [''BGC'' @ tab @ ''Accession ID'' @ tab @ ''Description'' @ tab @ ''Product Prediction''
        @ tab @ ''BiG-SCAPE class'' @ tab @ ''Organism'' @ tab @ ''Taxonomy'',
      ''testcluster1'' @ tab @ ''acc'' @ tab @ ''desc'' @ tab @ ''nrps'' @ tab @ ''NRPS''
        @ tab @ ''Test organism 1'' @ tab @ ''Bacteria'',
      '''']"

text \<open>
  A summary file with a header, a row for a cluster of the data set and a row for a
  reference cluster.
\<close>

definition summary_with_reference :: "string list" where
  "summary_with_reference =
     [''BGC'' @ tab @ ''Accession ID'' @ tab @ ''Description'' @ tab @ ''Product Prediction''
        @ tab @ ''BiG-SCAPE class'' @ tab @ ''Organism'' @ tab @ ''Taxonomy'',
      ''testcluster1'' @ tab @ ''acc'' @ tab @ ''desc'' @ tab @ ''nrps'' @ tab @ ''NRPS''
        @ tab @ ''Test organism 1'' @ tab @ ''Bacteria'',
      ''BGC_1'' @ tab @ ''acc'' @ tab @ ''Testomycin biosynthetic gene cluster'' @ tab
        @ ''other'' @ tab @ ''other'' @ tab @ ''Streptomyces sp.'' @ tab @ ''Bacteria'']"

text \<open>
  A merged network with three components, one of them made of reference clusters only,
  and the types of its clusters.
\<close>

definition example_network :: "edge list" where
  "example_network =
     [\<lparr>clustername_1 = ''Cluster_1'', clustername_2 = ''Cluster_2'', raw_distance = 35 / 100\<rparr>,
      \<lparr>clustername_1 = ''Cluster_4'', clustername_2 = ''Cluster_5'', raw_distance = 1 / 10\<rparr>,
      \<lparr>clustername_1 = ''Cluster_2'', clustername_2 = ''Cluster_3'', raw_distance = 1 / 5\<rparr>,
      \<lparr>clustername_1 = ''BGC_1'', clustername_2 = ''BGC_2'', raw_distance = 1 / 10\<rparr>,
      \<lparr>clustername_1 = ''BGC_3'', clustername_2 = ''Cluster_5'', raw_distance = 1 / 4\<rparr>]"

definition example_types :: "string dict" where
  "example_types =
     [(''Cluster_1'', ''test''), (''Cluster_2'', ''test''), (''Cluster_3'', ''test''),
      (''Cluster_4'', ''test''), (''Cluster_5'', ''test''), (''BGC_1'', ''other''),
      (''BGC_2'', ''other''), (''BGC_3'', ''other'')]"

text \<open>
  The naming rule in the words of the specification. The display names of a family's
  reference clusters, in the order of the members; a display name is appended, after an
  underscore, unless the name built so far contains it; the name of the family at a rank
  starts from the rank, an underscore and the compound class.
\<close>

definition reference_display_names :: "string dict \<Rightarrow> py_set \<Rightarrow> string list" where
  "reference_display_names bgc_names members =
     concat (map (\<lambda>c. case map_of bgc_names c of None \<Rightarrow> [] | Some name \<Rightarrow> [name])
                 (filter (\<lambda>c. startswith c ''BGC'') members))"

definition append_unless_present :: "string \<Rightarrow> string \<Rightarrow> string" where
  "append_unless_present family_name name =
     (if is_substring name family_name then family_name else family_name @ ''_'' @ name)"

definition spec_family_name :: "string dict \<Rightarrow> nat \<Rightarrow> compound_family \<Rightarrow> string" where
  "spec_family_name bgc_names rank family =
     foldl append_unless_present (str_nat rank @ ''_'' @ compound_class family)
       (reference_display_names bgc_names (clusters family))"

text \<open>Every reference cluster of the families has a display name.\<close>

definition references_named :: "string dict \<Rightarrow> compound_family list \<Rightarrow> bool" where
  "references_named bgc_names families =
     (\<forall>f \<in> set families. \<forall>c \<in> set (clusters f).
        startswith c ''BGC'' \<longrightarrow> map_of bgc_names c \<noteq> None)"

text \<open>
  Two families of two and three clusters, the larger with a reference cluster, in the
  order smaller first; and two families of the same class and size.
\<close>

definition example_families :: "compound_family list" where
  "example_families =
     [\<lparr>compound_class = ''test'', clusters = [''Cluster_4'', ''Cluster_5'']\<rparr>,
      \<lparr>compound_class = ''test_other'',
        clusters = [''Cluster_1'', ''Cluster_2'', ''BGC_3'']\<rparr>]"

definition twin_families :: "compound_family list" where
  "twin_families =
     [\<lparr>compound_class = ''test'', clusters = [''Cluster_1'', ''Cluster_2'']\<rparr>,
      \<lparr>compound_class = ''test'', clusters = [''Cluster_4'', ''Cluster_5'']\<rparr>]"

text \<open>
  The invariant of the naming loop: every name given so far starts with a rank below the
  current index, followed by an underscore.
\<close>

definition ranked_below :: "nat \<Rightarrow> 'v dict \<Rightarrow> bool" where
  "ranked_below i d = (\<forall>k \<in> set (keys d). \<exists>j < i. \<exists>r. k = str_nat j @ ''_'' @ r)"

text \<open>The dictionary the naming loop builds for families in their sorted order.\<close>

definition named_from :: "string dict \<Rightarrow> nat \<Rightarrow> compound_family list \<Rightarrow> py_set dict" where
  "named_from bgc_names i fs =
     map (\<lambda>(rank, f). (spec_family_name bgc_names rank f, clusters f)) (enumerate i fs)"

text \<open>
  Every family name starts with the token and an underscore for exactly one token of
  the order.
\<close>

definition each_family_selected_once :: "'v dict \<Rightarrow> string list \<Rightarrow> bool" where
  "each_family_selected_once families_with_names family_order =
     (\<forall>family \<in> set (keys families_with_names).
        length (filter (\<lambda>family_number. startswith family (family_number @ ''_''))
                  family_order) = 1)"

text \<open>
  The rows of the two serializations, as the specification describes them: the name of
  the genome followed by its count for every family.
\<close>

definition csv_genome_row :: "data_frame \<Rightarrow> nat \<Rightarrow> string" where
  "csv_genome_row df i = csv_row (frame_row df i)"

definition tab_genome_row :: "py_set dict \<Rightarrow> string list \<Rightarrow> string \<times> py_set \<Rightarrow> string" where
  "tab_genome_row families_with_clusters all_families item =
     fst item @ tab
     @ join tab (map (\<lambda>family.
                        str_nat (len_intersection (snd item)
                                   (case map_of families_with_clusters family of
                                      None \<Rightarrow> [] | Some family_clusters \<Rightarrow> family_clusters)))
                     all_families)"

text \<open>A leaf order that leaves the two families of the test as they are.\<close>

definition leaves_in_order :: "nat list list \<Rightarrow> py_error + nat list" where
  "leaves_in_order rows = Inr [0..<length rows]"

section \<open>Facts about dictionaries\<close>

lemma set_dict_set: "set (dict_set k v d) \<subseteq> insert (k, v) (set d)"
  by (induction d) auto

lemma keys_dict_set: "set (keys (dict_set k v d)) = insert k (set (keys d))"
  by (induction d) (auto simp: keys_def)

lemma split_on_nonempty: "split_on sep s \<noteq> []"
  by (induction s) (auto split: list.splits)

section \<open>SummaryParser keeps reference ids and genome clusters apart\<close>

lemma ids_dict_set:
  "(\<Union>cs \<in> snd ` set (dict_set g v d). set cs) \<subseteq> set v \<union> (\<Union>cs \<in> snd ` set d. set cs)"
  using set_dict_set [of g v d] by fastforce

lemma ids_lookup:
  "map_of d g = Some cs \<Longrightarrow> set cs \<subseteq> (\<Union>cs \<in> snd ` set d. set cs)"
  by (force dest: map_of_SomeD)

lemma set_set_add: "set (set_add x s) = insert x (set s)"
  by (auto simp: set_add_def)

lemma record_genome_ids:
  "(\<Union>cs \<in> snd ` set (case map_of d g of
             None \<Rightarrow> dict_set g [c] d
           | Some cs \<Rightarrow> dict_set g (set_add c cs) d). set cs)
     \<subseteq> insert c (\<Union>cs \<in> snd ` set d. set cs)"
proof (cases "map_of d g")
  case None
  then show ?thesis using ids_dict_set [where g = g and v = "[c]" and d = d] by simp
next
  case (Some cs)
  then show ?thesis
    using ids_dict_set [where g = g and v = "set_add c cs" and d = d] ids_lookup [OF Some]
    by (auto simp: set_set_add)
qed

lemma parse_row_reference:
  assumes "parse_row st raw = Inr st'"
  shows "reference_ids st' =
           (if startswith (split_on (CHR 0x09) (rstrip raw) ! 0) ''BGC''
            then insert (split_on (CHR 0x09) (rstrip raw) ! 0) (reference_ids st)
            else reference_ids st)"
  using assms
  by (auto simp: parse_row_def Let_def reference_ids_def keys_dict_set
      split: sum.splits if_splits)

lemma parse_row_genome:
  assumes "parse_row st raw = Inr st'"
  shows "genome_cluster_ids st' \<subseteq>
           (if startswith (split_on (CHR 0x09) (rstrip raw) ! 0) ''BGC''
            then genome_cluster_ids st
            else insert (split_on (CHR 0x09) (rstrip raw) ! 0) (genome_cluster_ids st))"
proof (cases "startswith (split_on (CHR 0x09) (rstrip raw) ! 0) ''BGC''")
  case True
  with assms show ?thesis
    by (auto simp: parse_row_def Let_def genome_cluster_ids_def split: sum.splits if_splits)
next
  case False
  from assms False obtain g where
    "genomes_with_clusters st' =
       (case map_of (genomes_with_clusters st) g of
          None \<Rightarrow> dict_set g [split_on (CHR 0x09) (rstrip raw) ! 0] (genomes_with_clusters st)
        | Some cs \<Rightarrow> dict_set g (set_add (split_on (CHR 0x09) (rstrip raw) ! 0) cs)
                      (genomes_with_clusters st))"
    by (auto simp: parse_row_def Let_def split: sum.splits if_splits cong: option.case_cong)
  then show ?thesis
    using False record_genome_ids [where d = "genomes_with_clusters st" and g = g]
    by (simp add: genome_cluster_ids_def)
qed

lemma parse_row_separated:
  assumes "ids_separated st" and "parse_row st raw = Inr st'"
  shows "ids_separated st'"
  using assms(1) parse_row_reference [OF assms(2)] parse_row_genome [OF assms(2)]
  by (auto simp: ids_separated_def split: if_splits)

lemma parse_rows_separated:
  "ids_separated st \<Longrightarrow> parse_rows st ls = Inr st' \<Longrightarrow> ids_separated st'"
proof (induction ls arbitrary: st)
  case Nil
  then show ?case by simp
next
  case (Cons l ls)
  then show ?case
    by (auto split: sum.splits dest: parse_row_separated)
qed

lemma empty_summary_separated: "ids_separated empty_summary"
  by (simp add: ids_separated_def empty_summary_def genome_cluster_ids_def
      reference_ids_def keys_def)

text \<open>
  Claim C10. Whenever \<open>map_clusters_to_names\<close> returns, no cluster id in any genome's
  cluster set starts with \<open>BGC\<close>, every key of the display-name mapping starts with
  \<open>BGC\<close>, and so the cluster ids of the genome mapping and the keys of the
  display-name mapping are disjoint.
\<close>

theorem map_clusters_to_names_ids_disjoint:
  "map_clusters_to_names file = Inr st \<Longrightarrow>
     (\<forall>c \<in> genome_cluster_ids st. \<not> startswith c ''BGC'')
     \<and> (\<forall>k \<in> reference_ids st. startswith k ''BGC'')
     \<and> genome_cluster_ids st \<inter> reference_ids st = {}"
proof -
  assume "map_clusters_to_names file = Inr st"
  then obtain header rows where "parse_rows empty_summary rows = Inr st"
    by (auto simp: map_clusters_to_names_def split: list.splits if_splits)
  then have "ids_separated st"
    using empty_summary_separated parse_rows_separated by blast
  then show ?thesis
    by (auto simp: ids_separated_def)
qed

text \<open>The theorem at a file with one row of each kind.\<close>

theorem map_clusters_to_names_ids_disjoint_witness:
  "map_clusters_to_names summary_with_reference =
     Inr \<lparr>genomes_with_clusters = [(''Test_organism_1'', [''testcluster1''])],
          bgcs_with_names = [(''BGC_1'', ''Testomycin'')],
          clusters_with_types = [(''testcluster1'', ''NRPS''), (''BGC_1'', ''other'')],
          wrong_line_format = False\<rparr>
   \<and> genome_cluster_ids
        \<lparr>genomes_with_clusters = [(''Test_organism_1'', [''testcluster1''])],
         bgcs_with_names = [(''BGC_1'', ''Testomycin'')],
         clusters_with_types = [(''testcluster1'', ''NRPS''), (''BGC_1'', ''other'')],
         wrong_line_format = False\<rparr>
      \<inter> reference_ids
        \<lparr>genomes_with_clusters = [(''Test_organism_1'', [''testcluster1''])],
         bgcs_with_names = [(''BGC_1'', ''Testomycin'')],
         clusters_with_types = [(''testcluster1'', ''NRPS''), (''BGC_1'', ''other'')],
         wrong_line_format = False\<rparr> = {}"
proof -
  have run: "map_clusters_to_names summary_with_reference =
     Inr \<lparr>genomes_with_clusters = [(''Test_organism_1'', [''testcluster1''])],
          bgcs_with_names = [(''BGC_1'', ''Testomycin'')],
          clusters_with_types = [(''testcluster1'', ''NRPS''), (''BGC_1'', ''other'')],
          wrong_line_format = False\<rparr>"
    by (simp add: map_clusters_to_names_def summary_with_reference_def tab_def startswith_def
        parse_row_def rstrip_def is_space_def field_def empty_summary_def sanitize_def
        allowed_char_def set_add_def Let_def)
  from map_clusters_to_names_ids_disjoint [OF run] run show ?thesis
    by blast
qed

section \<open>NetworkMerger: one averaged row per cluster pair\<close>













text \<open>
  Claim C9. \<open>Match_name\<close> is the two cluster names put together with nothing between
  them: the rows for the pairs (A, BC) and (AB, C) get the same key, and the merge gives
  both the mean 2/5 of their distances 1/5 and 3/5.
\<close>

theorem match_name_collision_averaged:
  "match_name \<lparr>clustername_1 = ''A'', clustername_2 = ''BC'', raw_distance = 1 / 5\<rparr>
     = match_name \<lparr>clustername_1 = ''AB'', clustername_2 = ''C'', raw_distance = 3 / 5\<rparr>
   \<and> merge_all_bigscape_networks colliding_result_dirs ''0.30'' =
       Inr [\<lparr>clustername_1 = ''A'', clustername_2 = ''BC'', raw_distance = 2 / 5\<rparr>,
            \<lparr>clustername_1 = ''AB'', clustername_2 = ''C'', raw_distance = 2 / 5\<rparr>]"
  by (simp add: merge_all_bigscape_networks_def colliding_result_dirs_def
      matches_network_pattern_def endswith_def networks_combined_def drop_duplicates_def
      network_matches_def match_name_def mean_def)

section \<open>SummaryParser on a short row\<close>

text \<open>
  Claim C5. A blank line after a well-formed row has one field: the flag is set, and then
  the read of the sixth field raises IndexError, so the parser returns no mappings and
  writes no warning.
\<close>

theorem map_clusters_to_names_blank_line:
  "map_clusters_to_names summary_with_blank_line = Inl IndexError"
  by (simp add: map_clusters_to_names_def summary_with_blank_line_def tab_def startswith_def
      parse_row_def rstrip_def is_space_def field_def empty_summary_def sanitize_def
      allowed_char_def Let_def)

section \<open>FamilyDetector keeps no component of reference clusters only\<close>

lemma trim_components_not_all_reference:
  "trim_components cluster_types cs = Inr fams \<Longrightarrow> f \<in> set fams \<Longrightarrow>
     \<not> list_all (\<lambda>component. startswith component ''BGC'') (clusters f)"
proof (induction cs arbitrary: fams)
  case Nil
  then show ?case by simp
next
  case (Cons c cs)
  show ?case
  proof (cases "list_all (\<lambda>component. startswith component ''BGC'') c")
    case True
    with Cons show ?thesis by simp
  next
    case False
    with Cons.prems(1) obtain ts rest where
      rest: "trim_components cluster_types cs = Inr rest"
      and fams: "fams = \<lparr>compound_class = join ''_'' (drop_duplicates ts), clusters = c\<rparr> # rest"
      by (auto split: sum.splits)
    from Cons.prems(2) fams consider "clusters f = c" | "f \<in> set rest" by auto
    then show ?thesis
    proof cases
      case 1
      with False show ?thesis by simp
    next
      case 2
      with Cons.IH rest show ?thesis by blast
    qed
  qed
qed

text \<open>
  Claim C3. Every family \<open>get_connected_from_df\<close> returns has a member whose id does
  not start with \<open>BGC\<close>: a component whose members all carry the prefix is dropped.
\<close>

theorem get_connected_from_df_has_query_cluster:
  "get_connected_from_df network_df cluster_types = Inr fams \<Longrightarrow> f \<in> set fams \<Longrightarrow>
     \<exists>c \<in> set (clusters f). \<not> startswith c ''BGC''"
  using trim_components_not_all_reference [of cluster_types "connected_components network_df" fams f]
  by (auto simp: get_connected_from_df_def list_all_iff)

text \<open>
  The example network has the component of \<open>BGC_1\<close> and \<open>BGC_2\<close>, which is dropped;
  the family of \<open>BGC_3\<close> stays, with \<open>Cluster_4\<close> in it.
\<close>

theorem get_connected_from_df_has_query_cluster_witness:
  "get_connected_from_df example_network example_types =
     Inr [\<lparr>compound_class = ''test'', clusters = [''Cluster_1'', ''Cluster_2'', ''Cluster_3'']\<rparr>,
          \<lparr>compound_class = ''test_other'',
            clusters = [''Cluster_4'', ''Cluster_5'', ''BGC_3'']\<rparr>]
   \<and> (\<exists>c \<in> set [''Cluster_4'', ''Cluster_5'', ''BGC_3'']. \<not> startswith c ''BGC'')"
proof -
  have run: "get_connected_from_df example_network example_types =
     Inr [\<lparr>compound_class = ''test'', clusters = [''Cluster_1'', ''Cluster_2'', ''Cluster_3'']\<rparr>,
          \<lparr>compound_class = ''test_other'',
            clusters = [''Cluster_4'', ''Cluster_5'', ''BGC_3'']\<rparr>]"
    by code_simp
  from get_connected_from_df_has_query_cluster [OF run,
      of "\<lparr>compound_class = ''test_other'',
            clusters = [''Cluster_4'', ''Cluster_5'', ''BGC_3'']\<rparr>"]
  have "\<exists>c \<in> set [''Cluster_4'', ''Cluster_5'', ''BGC_3'']. \<not> startswith c ''BGC''"
    by simp
  with run show ?thesis by blast
qed

section \<open>FamilyNamer: ranks, names and the returned dictionary\<close>

lemma of_char_digit: "d < 10 \<Longrightarrow> of_char (digit_char d) = (48 + d :: nat)"
  by (simp add: digit_char_def)

lemma digit_char_inj:
  assumes "a < 10" and "b < 10" and "digit_char a = digit_char b"
  shows "a = b"
proof -
  have "(of_char (digit_char a) :: nat) = of_char (digit_char b)"
    using assms(3) by (rule arg_cong)
  then have "(48 + a :: nat) = 48 + b"
    by (simp only: of_char_digit [OF assms(1)] of_char_digit [OF assms(2)])
  then show ?thesis by simp
qed

lemma digit_char_not_underscore: "d < 10 \<Longrightarrow> digit_char d \<noteq> CHR ''_''"
proof
  assume "d < 10" and "digit_char d = CHR ''_''"
  then have "(48 + d :: nat) = of_char (CHR ''_'')"
    using of_char_digit [of d] by simp
  with \<open>d < 10\<close> show False by simp
qed

lemma str_nat_nonempty: "str_nat n \<noteq> []"
  by (subst str_nat.simps) simp

lemma str_nat_no_underscore: "CHR ''_'' \<notin> set (str_nat n)"
proof (induction n rule: str_nat.induct)
  case (1 n)
  show ?case
  proof (cases "n < 10")
    case True
    then show ?thesis
      using digit_char_not_underscore [of n] by (subst str_nat.simps) auto
  next
    case False
    then show ?thesis
      using "1" digit_char_not_underscore [of "n mod 10"]
      by (subst str_nat.simps) auto
  qed
qed

lemma str_nat_inj: "str_nat n = str_nat m \<Longrightarrow> n = m"
proof (induction n arbitrary: m rule: str_nat.induct)
  case (1 n)
  show ?case
  proof (cases "n < 10")
    case small_n: True
    then have n: "str_nat n = [digit_char n]" by (subst str_nat.simps) simp
    show ?thesis
    proof (cases "m < 10")
      case True
      then have "str_nat m = [digit_char m]" by (subst str_nat.simps) simp
      with n "1.prems" small_n True show ?thesis by (simp add: digit_char_inj)
    next
      case False
      then have "str_nat m = str_nat (m div 10) @ [digit_char (m mod 10)]"
        by (subst str_nat.simps) simp
      with n "1.prems" str_nat_nonempty [of "m div 10"] show ?thesis by simp
    qed
  next
    case big_n: False
    then have n: "str_nat n = str_nat (n div 10) @ [digit_char (n mod 10)]"
      by (subst str_nat.simps) simp
    show ?thesis
    proof (cases "m < 10")
      case True
      then have "str_nat m = [digit_char m]" by (subst str_nat.simps) simp
      with n "1.prems" str_nat_nonempty [of "n div 10"] show ?thesis by simp
    next
      case False
      then have "str_nat m = str_nat (m div 10) @ [digit_char (m mod 10)]"
        by (subst str_nat.simps) simp
      with n "1.prems" have eq: "str_nat (n div 10) = str_nat (m div 10)"
        and d: "digit_char (n mod 10) = digit_char (m mod 10)" by simp_all
      from "1.IH" [OF big_n eq] have "n div 10 = m div 10" .
      moreover from d have "n mod 10 = m mod 10" by (simp add: digit_char_inj)
      ultimately show ?thesis by (metis div_mult_mod_eq)
    qed
  qed
qed

lemma rank_of_name:
  "takeWhile (\<lambda>c. c \<noteq> CHR ''_'') (str_nat n @ ''_'' @ x) = str_nat n"
proof -
  have "c \<noteq> CHR ''_''" if "c \<in> set (str_nat n)" for c
    using that str_nat_no_underscore [of n] by auto
  then have "takeWhile (\<lambda>c. c \<noteq> CHR ''_'') (str_nat n @ (''_'' @ x))
               = str_nat n @ takeWhile (\<lambda>c. c \<noteq> CHR ''_'') (''_'' @ x)"
    by (rule takeWhile_append2)
  then show ?thesis by simp
qed

lemma rank_prefix_unique:
  assumes "str_nat i @ ''_'' @ r = str_nat j @ ''_'' @ r'"
  shows "i = j"
proof -
  have "takeWhile (\<lambda>c. c \<noteq> CHR ''_'') (str_nat i @ ''_'' @ r)
          = takeWhile (\<lambda>c. c \<noteq> CHR ''_'') (str_nat j @ ''_'' @ r')"
    using assms by (rule arg_cong)
  then have "str_nat i = str_nat j"
    by (simp only: rank_of_name)
  then show ?thesis by (rule str_nat_inj)
qed


lemma dict_set_fresh: "k \<notin> set (keys d) \<Longrightarrow> dict_set k v d = d @ [(k, v)]"
  by (induction d) (auto simp: keys_def)

lemma append_unless_present_eq:
  "append_unless_present name d = (if is_substring d name then name else name @ ''_'' @ d)"
  by (simp add: append_unless_present_def)

lemma add_bgc_names_step:
  "startswith c ''BGC'' \<Longrightarrow> map_of bgc c = Some d \<Longrightarrow>
     add_bgc_names bgc name (c # cs) = add_bgc_names bgc (append_unless_present name d) cs"
  by (simp add: dict_get_def append_unless_present_eq)

lemma reference_display_names_Cons:
  "reference_display_names bgc (c # cs) =
     (if startswith c ''BGC''
      then (case map_of bgc c of None \<Rightarrow> [] | Some d \<Rightarrow> [d]) @ reference_display_names bgc cs
      else reference_display_names bgc cs)"
  by (simp add: reference_display_names_def)

lemma add_bgc_names_spec:
  "add_bgc_names bgc name cs = Inr nm \<Longrightarrow>
     nm = foldl append_unless_present name (reference_display_names bgc cs)"
proof (induction cs arbitrary: name)
  case Nil
  then show ?case by (simp add: reference_display_names_def)
next
  case (Cons c cs)
  show ?case
  proof (cases "startswith c ''BGC''")
    case False
    with Cons show ?thesis by (simp add: reference_display_names_Cons)
  next
    case True
    with Cons.prems obtain d where d: "map_of bgc c = Some d"
      by (auto simp: dict_get_def split: option.splits)
    from Cons.prems have "add_bgc_names bgc (append_unless_present name d) cs = Inr nm"
      by (simp only: add_bgc_names_step [OF True d])
    from Cons.IH [OF this] True d show ?thesis
      by (simp add: reference_display_names_Cons)
  qed
qed

lemma add_bgc_names_total:
  "\<forall>c \<in> set cs. startswith c ''BGC'' \<longrightarrow> map_of bgc c \<noteq> None \<Longrightarrow>
     add_bgc_names bgc name cs
       = Inr (foldl append_unless_present name (reference_display_names bgc cs))"
proof (induction cs arbitrary: name)
  case Nil
  then show ?case by (simp add: reference_display_names_def)
next
  case (Cons c cs)
  from Cons.prems have rest: "\<forall>c \<in> set cs. startswith c ''BGC'' \<longrightarrow> map_of bgc c \<noteq> None"
    by simp
  show ?case
  proof (cases "startswith c ''BGC''")
    case False
    with Cons.IH [OF rest] show ?thesis by (simp add: reference_display_names_Cons)
  next
    case True
    with Cons.prems obtain d where d: "map_of bgc c = Some d" by auto
    have "add_bgc_names bgc name (c # cs)
            = Inr (foldl append_unless_present (append_unless_present name d)
                     (reference_display_names bgc cs))"
      by (simp only: add_bgc_names_step [OF True d] Cons.IH [OF rest])
    with True d show ?thesis
      by (simp add: reference_display_names_Cons)
  qed
qed

lemma foldl_append_unless_prefix:
  "\<exists>r. foldl append_unless_present name ds = name @ r"
proof (induction ds arbitrary: name)
  case Nil
  then show ?case by simp
next
  case (Cons d ds)
  obtain r where r: "foldl append_unless_present (append_unless_present name d) ds
                    = append_unless_present name d @ r"
    using Cons.IH by blast
  obtain s where s: "append_unless_present name d = name @ s"
    by (cases "is_substring d name") (simp_all add: append_unless_present_eq)
  have "foldl append_unless_present name (d # ds)
          = foldl append_unless_present (append_unless_present name d) ds"
    by simp
  also have "\<dots> = append_unless_present name d @ r" by (rule r)
  also have "\<dots> = name @ (s @ r)" by (simp only: s append_assoc)
  finally show ?case by blast
qed

lemma spec_family_name_rank:
  "\<exists>r. spec_family_name bgc i f = str_nat i @ ''_'' @ r"
  using foldl_append_unless_prefix
    [of "str_nat i @ ''_'' @ compound_class f" "reference_display_names bgc (clusters f)"]
  by (auto simp: spec_family_name_def)

lemma name_step:
  assumes "ranked_below i acc"
  shows "dict_set (spec_family_name bgc i f) v acc = acc @ [(spec_family_name bgc i f, v)]"
    and "ranked_below (Suc i) (acc @ [(spec_family_name bgc i f, v)])"
proof -
  obtain r where r: "spec_family_name bgc i f = str_nat i @ ''_'' @ r"
    using spec_family_name_rank by blast
  have "spec_family_name bgc i f \<notin> set (keys acc)"
  proof
    assume "spec_family_name bgc i f \<in> set (keys acc)"
    with assms obtain j r' where "j < i" "spec_family_name bgc i f = str_nat j @ ''_'' @ r'"
      by (auto simp: ranked_below_def)
    with r have "i = j" using rank_prefix_unique [of i r j r'] by simp
    with \<open>j < i\<close> show False by simp
  qed
  then show "dict_set (spec_family_name bgc i f) v acc = acc @ [(spec_family_name bgc i f, v)]"
    by (rule dict_set_fresh)
  show "ranked_below (Suc i) (acc @ [(spec_family_name bgc i f, v)])"
    unfolding ranked_below_def keys_def
  proof
    fix k assume "k \<in> set (map fst (acc @ [(spec_family_name bgc i f, v)]))"
    then consider "k \<in> set (keys acc)" | "k = spec_family_name bgc i f"
      by (auto simp: keys_def)
    then show "\<exists>j < Suc i. \<exists>r. k = str_nat j @ ''_'' @ r"
    proof cases
      case 1
      with assms obtain j r' where "j < i" "k = str_nat j @ ''_'' @ r'"
        by (auto simp: ranked_below_def)
      then show ?thesis using less_Suc_eq by blast
    next
      case 2
      with r show ?thesis by blast
    qed
  qed
qed

lemma name_families_result:
  "name_families bgc i fs acc = Inr m \<Longrightarrow> ranked_below i acc \<Longrightarrow>
     m = acc @ named_from bgc i fs"
proof (induction fs arbitrary: i acc)
  case Nil
  then show ?case by (simp add: named_from_def)
next
  case (Cons f fs)
  from Cons.prems(1) obtain nm where
    nm: "add_bgc_names bgc (str_nat i @ ''_'' @ compound_class f) (clusters f) = Inr nm"
    and rest: "name_families bgc (Suc i) fs (dict_set nm (clusters f) acc) = Inr m"
    by (auto split: sum.splits)
  from add_bgc_names_spec [OF nm] have nm_eq: "nm = spec_family_name bgc i f"
    by (simp add: spec_family_name_def)
  note step = name_step [OF Cons.prems(2), of bgc f "clusters f"]
  from rest have "name_families bgc (Suc i) fs (acc @ [(nm, clusters f)]) = Inr m"
    by (simp add: nm_eq step(1))
  from Cons.IH [OF this] step(2) have "m = (acc @ [(nm, clusters f)]) @ named_from bgc (Suc i) fs"
    by (simp add: nm_eq)
  then show ?case by (simp add: named_from_def nm_eq)
qed

lemma name_families_total:
  "references_named bgc fs \<Longrightarrow> ranked_below i acc \<Longrightarrow>
     name_families bgc i fs acc = Inr (acc @ named_from bgc i fs)"
proof (induction fs arbitrary: i acc)
  case Nil
  then show ?case by (simp add: named_from_def)
next
  case (Cons f fs)
  from Cons.prems(1) have named: "\<forall>c \<in> set (clusters f). startswith c ''BGC'' \<longrightarrow> map_of bgc c \<noteq> None"
    and rest: "references_named bgc fs"
    by (simp_all add: references_named_def)
  have nm: "add_bgc_names bgc (str_nat i @ ''_'' @ compound_class f) (clusters f)
              = Inr (spec_family_name bgc i f)"
    using add_bgc_names_total [OF named] by (simp add: spec_family_name_def)
  note step = name_step [OF Cons.prems(2), of bgc f "clusters f"]
  from Cons.IH [OF rest step(2)] nm step(1) show ?case
    by (simp add: named_from_def)
qed

lemma distinct_named_from: "distinct (keys (named_from bgc i fs))"
  unfolding distinct_conv_nth
proof (intro allI impI)
  fix p q
  assume p: "p < length (keys (named_from bgc i fs))"
    and q: "q < length (keys (named_from bgc i fs))" and "p \<noteq> q"
  from p q have pl: "p < length fs" and ql: "q < length fs"
    by (simp_all add: keys_def named_from_def)
  have kp: "keys (named_from bgc i fs) ! p = spec_family_name bgc (i + p) (fs ! p)"
    using pl by (simp add: keys_def named_from_def nth_enumerate_eq)
  have kq: "keys (named_from bgc i fs) ! q = spec_family_name bgc (i + q) (fs ! q)"
    using ql by (simp add: keys_def named_from_def nth_enumerate_eq)
  show "keys (named_from bgc i fs) ! p \<noteq> keys (named_from bgc i fs) ! q"
  proof
    assume eq: "keys (named_from bgc i fs) ! p = keys (named_from bgc i fs) ! q"
    obtain r where r: "spec_family_name bgc (i + p) (fs ! p) = str_nat (i + p) @ ''_'' @ r"
      using spec_family_name_rank by blast
    obtain r' where r': "spec_family_name bgc (i + q) (fs ! q) = str_nat (i + q) @ ''_'' @ r'"
      using spec_family_name_rank by blast
    from eq kp kq r r' have "str_nat (i + p) @ ''_'' @ r = str_nat (i + q) @ ''_'' @ r'"
      by simp
    then have "i + p = i + q" by (rule rank_prefix_unique)
    with \<open>p \<noteq> q\<close> show False by simp
  qed
qed

lemma ranked_below_empty: "ranked_below i []"
  by (simp add: ranked_below_def keys_def)

lemma mset_sorted_families: "mset (sorted_families fams) = mset fams"
  by (simp add: sorted_families_def)

lemma sorted_families_descending:
  "sorted (rev (map len_family (sorted_families fams)))"
  by (simp add: sorted_families_def rev_map [symmetric])

lemma sorted_families_stable:
  "filter (\<lambda>f. len_family f = k) (sorted_families fams) = filter (\<lambda>f. len_family f = k) fams"
proof -
  have "filter (\<lambda>f. len_family f = k) (sorted_families fams)
          = rev (filter (\<lambda>f. len_family f = k) (sort_key len_family (rev fams)))"
    by (simp add: sorted_families_def rev_filter)
  also have "\<dots> = rev (filter (\<lambda>f. len_family f = k) (rev fams))"
    by (simp only: sort_key_stable)
  also have "\<dots> = filter (\<lambda>f. len_family f = k) fams"
    by (simp add: rev_filter)
  finally show ?thesis .
qed

lemma set_sorted_families: "set (sorted_families fams) = set fams"
  using mset_sorted_families [of fams] by (rule mset_eq_setD)

lemma map_snd_named_from: "map snd (named_from bgc i fs) = map clusters fs"
  by (induction fs arbitrary: i) (simp_all add: named_from_def)

lemma get_families_named_from:
  "get_families fams bgc = Inr m \<Longrightarrow> m = named_from bgc 1 (sorted_families fams)"
  using name_families_result [of bgc 1 "sorted_families fams" "[]" m] ranked_below_empty [of 1]
  by (simp add: get_families_def)

text \<open>
  Claim C4. When every reference cluster of the families has a display name,
  \<open>get_families\<close> returns, and its dictionary lists the families in order of
  descending size (a permutation of the input in which families of one size keep their
  order); the entry at rank \<open>r\<close>, counted from 1, has the clusters of the \<open>r\<close>-th
  family under the name that starts as \<open>r\<close>, underscore, compound class and then
  receives, for each member with the prefix \<open>BGC\<close> in turn, an underscore and the
  member's display name unless the name built so far contains that display name.
\<close>

theorem get_families_ranked_names:
  assumes "references_named bgc_names connected_families"
  shows "get_families connected_families bgc_names =
           Inr (map (\<lambda>(rank, f). (spec_family_name bgc_names rank f, clusters f))
                    (enumerate 1 (sorted_families connected_families)))
         \<and> mset (sorted_families connected_families) = mset connected_families
         \<and> sorted (rev (map len_family (sorted_families connected_families)))
         \<and> filter (\<lambda>f. len_family f = k) (sorted_families connected_families)
             = filter (\<lambda>f. len_family f = k) connected_families"
proof -
  from assms have "references_named bgc_names (sorted_families connected_families)"
    by (simp add: references_named_def set_sorted_families)
  from name_families_total [OF this ranked_below_empty, of 1]
  have "get_families connected_families bgc_names =
          Inr (named_from bgc_names 1 (sorted_families connected_families))"
    by (simp add: get_families_def)
  then show ?thesis
    using mset_sorted_families [of connected_families]
      sorted_families_descending [of connected_families]
      sorted_families_stable [of k connected_families]
    by (simp add: named_from_def)
qed

text \<open>
  The smaller family comes first in the input and second in the result; the reference
  cluster \<open>BGC_3\<close> adds its display name to the name of the larger family.
\<close>

theorem get_families_ranked_names_witness:
  "references_named [(''BGC_3'', ''Testomycin'')] example_families
   \<and> get_families example_families [(''BGC_3'', ''Testomycin'')] =
       Inr [(''1_test_other_Testomycin'', [''Cluster_1'', ''Cluster_2'', ''BGC_3'']),
            (''2_test'', [''Cluster_4'', ''Cluster_5''])]"
proof -
  have named: "references_named [(''BGC_3'', ''Testomycin'')] example_families"
    by (simp add: references_named_def example_families_def startswith_def)
  have "map (\<lambda>(rank, f). (spec_family_name [(''BGC_3'', ''Testomycin'')] rank f, clusters f))
          (enumerate 1 (sorted_families example_families))
        = [(''1_test_other_Testomycin'', [''Cluster_1'', ''Cluster_2'', ''BGC_3'']),
           (''2_test'', [''Cluster_4'', ''Cluster_5''])]"
    by code_simp
  with get_families_ranked_names [OF named] named show ?thesis
    by simp
qed

text \<open>
  Claim C8, as the code has it. No two families receive the same name, because every
  name starts with its own rank and an underscore: whenever \<open>get_families\<close> returns,
  the names are distinct, there is one entry for every input family, and the entries
  hold the cluster sets of the families in sorted order.
\<close>

theorem get_families_names_distinct:
  "get_families connected_families bgc_names = Inr families_names \<Longrightarrow>
     distinct (keys families_names)
     \<and> length families_names = length connected_families
     \<and> map snd families_names = map clusters (sorted_families connected_families)"
proof -
  assume "get_families connected_families bgc_names = Inr families_names"
  then have m: "families_names = named_from bgc_names 1 (sorted_families connected_families)"
    by (rule get_families_named_from)
  have "length (sorted_families connected_families) = length connected_families"
    using mset_sorted_families [of connected_families] by (rule mset_eq_length)
  moreover have "map snd (named_from bgc_names 1 (sorted_families connected_families))
                   = map clusters (sorted_families connected_families)"
    by (rule map_snd_named_from)
  ultimately show ?thesis
    using distinct_named_from [of bgc_names 1 "sorted_families connected_families"]
    by (simp add: m named_from_def)
qed

text \<open>Two families of the same class and size get the names of ranks 1 and 2.\<close>

theorem get_families_names_distinct_witness:
  "get_families twin_families [] =
     Inr [(''1_test'', [''Cluster_1'', ''Cluster_2'']), (''2_test'', [''Cluster_4'', ''Cluster_5''])]
   \<and> distinct (keys [(''1_test'', [''Cluster_1'', ''Cluster_2'']),
                      (''2_test'', [''Cluster_4'', ''Cluster_5''])])"
proof -
  have run: "get_families twin_families [] =
     Inr [(''1_test'', [''Cluster_1'', ''Cluster_2'']), (''2_test'', [''Cluster_4'', ''Cluster_5''])]"
    by code_simp
  from get_families_names_distinct [OF run] run show ?thesis
    by blast
qed

text \<open>
  The claim as written says the returned mapping can have fewer entries than there are
  input families. It never has.
\<close>

theorem get_families_never_drops_a_family:
  "\<not> (\<exists>connected_families bgc_names families_names.
         get_families connected_families bgc_names = Inr families_names
         \<and> length families_names < length connected_families)"
proof
  assume "\<exists>connected_families bgc_names families_names.
            get_families connected_families bgc_names = Inr families_names
            \<and> length families_names < length connected_families"
  then obtain fams bgc m where run: "get_families fams bgc = Inr m"
    and less: "length m < length fams"
    by blast
  from get_families_named_from [OF run] have "length m = length (sorted_families fams)"
    by (simp add: named_from_def)
  also have "\<dots> = length fams"
    using mset_sorted_families [of fams] by (rule mset_eq_length)
  finally show False using less by simp
qed

section \<open>MatrixBuilder: every entry is the size of an intersection\<close>








lemma length_sorted_items: "length (sorted_items d) = length d"
  by (simp add: sorted_items_def)





lemma select_columns_subset: "select_columns cols leaves = Inr chosen \<Longrightarrow> set chosen \<subseteq> set cols"
proof (induction leaves arbitrary: chosen)
  case Nil
  then show ?case by simp
next
  case (Cons l ls)
  from Cons.prems obtain rest where rest: "select_columns cols ls = Inr rest"
    and chosen: "chosen = cols ! l # rest" and l: "l < length cols"
    by (auto split: if_splits sum.splits)
  from Cons.IH [OF rest] chosen l show ?case by auto
qed


lemma preordered_frame_shape:
  "preordered_frame fwn cig order = Inr df \<Longrightarrow>
     \<exists>fc. count_families fwn cig (families_by_order fwn order) [] = Inr fc
          \<and> df = \<lparr>df_columns = fc, df_index = sort (keys cig)\<rparr>"
  by (auto simp: preordered_frame_def data_frame_of_def split: if_splits sum.splits)

lemma absence_presence_frame_shape:
  "absence_presence_frame leaves_of fwn cig = Inr df \<Longrightarrow>
     \<exists>fc cols. count_families fwn cig (sort (keys fwn)) [] = Inr fc
          \<and> set cols \<subseteq> set fc
          \<and> df = \<lparr>df_columns = cols, df_index = sort (keys cig)\<rparr>"
proof -
  assume "absence_presence_frame leaves_of fwn cig = Inr df"
  then obtain fc leaves cols where fc: "count_families fwn cig (sort (keys fwn)) [] = Inr fc"
    and sel: "select_columns fc leaves = Inr cols"
    and df: "df = \<lparr>df_columns = cols, df_index = sort (keys cig)\<rparr>"
    by (auto simp: absence_presence_frame_def data_frame_of_def split: if_splits sum.splits)
  from select_columns_subset [OF sel] fc df show ?thesis by blast
qed




section \<open>FamilyOrderer: the explicit order\<close>

lemma duplicates_of_empty:
  "duplicates_of seen ns = [] \<Longrightarrow> distinct ns \<and> set ns \<inter> set seen = {}"
proof (induction ns arbitrary: seen)
  case Nil
  then show ?case by simp
next
  case (Cons n ns)
  from Cons.prems have fresh: "n \<notin> set seen" and rest: "duplicates_of (n # seen) ns = []"
    by (auto split: if_splits)
  from Cons.IH [OF rest] fresh show ?case by auto
qed

lemma parse_family_order_distinct: "parse_family_order file = Inr order \<Longrightarrow> distinct order"
  using duplicates_of_empty [of "[]"]
  by (auto simp: parse_family_order_def Let_def split: if_splits)

lemma count_families_by_order:
  "count (mset (concat (map (\<lambda>t. filter (Q t) ks) ts))) x
     = length (filter (\<lambda>t. Q t x) ts) * count (mset ks) x"
  by (induction ts) simp_all

lemma mset_families_by_order:
  assumes "each_family_selected_once fwn order"
  shows "mset (families_by_order fwn order) = mset (keys fwn)"
proof (rule multiset_eqI)
  fix x
  show "count (mset (families_by_order fwn order)) x = count (mset (keys fwn)) x"
  proof (cases "x \<in> set (keys fwn)")
    case True
    with assms have "length (filter (\<lambda>t. startswith x (t @ ''_'')) order) = 1"
      by (simp add: each_family_selected_once_def)
    then show ?thesis
      by (simp add: families_by_order_def count_families_by_order)
  next
    case False
    then have "count (mset (keys fwn)) x = 0"
      by (simp add: count_eq_zero_iff)
    then show ?thesis
      by (simp add: families_by_order_def count_families_by_order)
  qed
qed

lemma count_families_keys:
  "distinct fams \<Longrightarrow> set fams \<inter> set (keys acc) = {} \<Longrightarrow> set fams \<subseteq> set (keys fwn) \<Longrightarrow>
     \<exists>fc. count_families fwn cig fams acc = Inr fc \<and> keys fc = keys acc @ fams"
proof (induction fams arbitrary: acc)
  case Nil
  then show ?case by simp
next
  case (Cons x xs)
  from Cons.prems(3) obtain cs where cs: "map_of fwn x = Some cs"
    by (auto simp: keys_def dest!: weak_map_of_SomeI)
  from Cons.prems(2) have fresh: "x \<notin> set (keys acc)" by simp
  let ?acc = "dict_set x (count_column cig cs) acc"
  have acc': "?acc = acc @ [(x, count_column cig cs)]"
    using fresh by (rule dict_set_fresh)
  have "distinct xs" and "set xs \<inter> set (keys ?acc) = {}" and "set xs \<subseteq> set (keys fwn)"
    using Cons.prems by (auto simp: acc' keys_def)
  from Cons.IH [OF this] obtain fc where
    "count_families fwn cig xs ?acc = Inr fc" and "keys fc = keys ?acc @ xs"
    by blast
  with cs show ?case
    by (simp add: dict_get_def acc' keys_def)
qed

lemma count_families_lengths:
  "count_families fwn cig fams acc = Inr fc \<Longrightarrow>
     \<forall>p \<in> set acc. length (snd p) = length cig \<Longrightarrow>
     \<forall>p \<in> set fc. length (snd p) = length cig"
proof (induction fams arbitrary: acc)
  case Nil
  then show ?case by simp
next
  case (Cons x xs)
  from Cons.prems(1) obtain cs where
    rest: "count_families fwn cig xs (dict_set x (count_column cig cs) acc) = Inr fc"
    by (auto simp: dict_get_def split: option.splits sum.splits)
  have "\<forall>p \<in> set (dict_set x (count_column cig cs) acc). length (snd p) = length cig"
    using set_dict_set [of x "count_column cig cs" acc] Cons.prems(2)
    by (auto simp: count_column_def sorted_items_def)
  from Cons.IH [OF rest this] show ?case .
qed

lemma preordered_frame_columns:
  assumes "length fwn = length order"
    and "distinct (families_by_order fwn order)"
    and "set (families_by_order fwn order) \<subseteq> set (keys fwn)"
  shows "\<exists>df. preordered_frame fwn cig order = Inr df
              \<and> keys (df_columns df) = families_by_order fwn order"
proof -
  from count_families_keys [OF assms(2) _ assms(3), of "[]" cig]
  obtain fc where fc: "count_families fwn cig (families_by_order fwn order) [] = Inr fc"
    and k: "keys fc = families_by_order fwn order"
    by (auto simp: keys_def)
  from count_families_lengths [OF fc]
  have "\<forall>p \<in> set fc. length (snd p) = length cig" by simp
  then have "list_all (\<lambda>(label, col). length col = length (sort (keys cig))) fc"
    by (auto simp: list_all_iff keys_def)
  with fc k assms(1) show ?thesis
    by (simp add: preordered_frame_def data_frame_of_def)
qed

text \<open>
  Claim C6, as the code has it. Take an order list that passes the duplicate and the
  length validation. If every family name starts with token and underscore for exactly
  one token of the list, \<open>get_preordered_matrix\<close> builds its frame, and the columns of
  the frame are a permutation of the family names: the same names, as many of them.
\<close>

theorem explicit_order_is_permutation:
  assumes "distinct (keys families_with_names)"
    and "parse_family_order order_file = Inr family_order"
    and "length families_with_names = length family_order"
    and "each_family_selected_once families_with_names family_order"
  shows "\<exists>df. preordered_frame families_with_names clusters_in_genomes family_order = Inr df
              \<and> mset (keys (df_columns df)) = mset (keys families_with_names)
              \<and> set (keys (df_columns df)) = set (keys families_with_names)
              \<and> length (keys (df_columns df)) = length (keys families_with_names)"
proof -
  have perm: "mset (families_by_order families_with_names family_order)
                = mset (keys families_with_names)"
    using assms(4) by (rule mset_families_by_order)
  have "distinct (families_by_order families_with_names family_order)"
    using mset_eq_imp_distinct_iff [OF perm] assms(1) by blast
  moreover from perm
  have same: "set (families_by_order families_with_names family_order)
                = set (keys families_with_names)"
    by (rule mset_eq_setD)
  ultimately obtain df where
    df: "preordered_frame families_with_names clusters_in_genomes family_order = Inr df"
    and cols: "keys (df_columns df) = families_by_order families_with_names family_order"
    using preordered_frame_columns [OF assms(3), of clusters_in_genomes] by auto
  from perm have "length (families_by_order families_with_names family_order)
                    = length (keys families_with_names)"
    by (rule mset_eq_length)
  with df cols perm same show ?thesis by simp
qed

text \<open>The order file of the repository's test: the two families, second one first.\<close>

theorem explicit_order_is_permutation_witness:
  "distinct (keys fake_families)
   \<and> parse_family_order [''2,1''] = Inr [''2'', ''1'']
   \<and> each_family_selected_once fake_families [''2'', ''1'']
   \<and> (\<exists>df. preordered_frame fake_families fake_genomes [''2'', ''1''] = Inr df
            \<and> mset (keys (df_columns df)) = mset (keys fake_families)
            \<and> set (keys (df_columns df)) = set (keys fake_families)
            \<and> length (keys (df_columns df)) = length (keys fake_families))"
proof -
  have dist: "distinct (keys fake_families)"
    by (simp add: fake_families_def keys_def)
  have parsed: "parse_family_order [''2,1''] = Inr [''2'', ''1'']"
    by (simp add: parse_family_order_def rstrip_def is_space_def)
  have len: "length fake_families = length [''2'', ''1'']"
    by (simp add: fake_families_def)
  have once: "each_family_selected_once fake_families [''2'', ''1'']"
    by (simp add: each_family_selected_once_def fake_families_def keys_def startswith_def)
  from explicit_order_is_permutation [OF dist parsed len once, of fake_genomes]
    dist parsed once
  show ?thesis by blast
qed

text \<open>
  The claim as written asks for no more than the two validations. The order \<open>1,3\<close>
  passes both for the two families of the test, and the frame has the one column
  \<open>1_test\<close>: no token selects \<open>2_test\<close>.
\<close>

theorem explicit_order_drops_a_family:
  "parse_family_order [''1,3''] = Inr [''1'', ''3'']
   \<and> length fake_families = length [''1'', ''3'']
   \<and> keys fake_families = [''1_test'', ''2_test'']
   \<and> preordered_frame fake_families fake_genomes [''1'', ''3''] =
       Inr \<lparr>df_columns = [(''1_test'', [1, 1, 0])],
            df_index = [''Test_org_1'', ''Test_org_2'', ''Test_org_3'']\<rparr>"
proof -
  have "parse_family_order [''1,3''] = Inr [''1'', ''3'']"
    by (simp add: parse_family_order_def rstrip_def is_space_def)
  moreover have "length fake_families = length [''1'', ''3'']"
    by (simp add: fake_families_def)
  moreover have "keys fake_families = [''1_test'', ''2_test'']"
    by (simp add: fake_families_def keys_def)
  moreover have "preordered_frame fake_families fake_genomes [''1'', ''3''] =
       Inr \<lparr>df_columns = [(''1_test'', [1, 1, 0])],
            df_index = [''Test_org_1'', ''Test_org_2'', ''Test_org_3'']\<rparr>"
    by code_simp
  ultimately show ?thesis by blast
qed

section \<open>The serialized matrix\<close>

lemma ints_of_keys: "ints_of int_of ks = Inr keyed \<Longrightarrow> map snd keyed = ks"
proof (induction ks arbitrary: keyed)
  case Nil
  then show ?case by simp
next
  case (Cons k ks)
  from Cons.prems obtain n rest where rest: "ints_of int_of ks = Inr rest"
    and keyed: "keyed = (n, k) # rest"
    by (auto split: option.splits sum.splits)
  from Cons.IH [OF rest] keyed show ?case by simp
qed

lemma family_counts_row:
  "family_counts fwc cs fams = Inr row \<Longrightarrow>
     row = map (\<lambda>family. str_nat (len_intersection cs
                  (case map_of fwc family of None \<Rightarrow> [] | Some fcl \<Rightarrow> fcl))) fams"
proof (induction fams arbitrary: row)
  case Nil
  then show ?case by simp
next
  case (Cons f fs)
  from Cons.prems obtain fcl rest where fcl: "map_of fwc f = Some fcl"
    and rest: "family_counts fwc cs fs = Inr rest"
    and row: "row = str_nat (len_intersection cs fcl) # rest"
    by (auto simp: dict_get_def split: option.splits sum.splits)
  from Cons.IH [OF rest] fcl row show ?case by simp
qed

lemma matrix_rows_text:
  "matrix_rows fwc fams acc items = Inr doc \<Longrightarrow>
     doc = acc @ concat (map (\<lambda>item. [CHR 0x0A] @ tab_genome_row fwc fams item) items)"
proof (induction items arbitrary: acc)
  case Nil
  then show ?case by simp
next
  case (Cons item items)
  obtain genome cs where item: "item = (genome, cs)" by (cases item)
  from Cons.prems item obtain row where row: "family_counts fwc cs fams = Inr row"
    and rest: "matrix_rows fwc fams (acc @ [CHR 0x0A] @ genome @ tab @ join tab row) items = Inr doc"
    by (auto split: sum.splits)
  have "tab_genome_row fwc fams item = genome @ tab @ join tab row"
    using family_counts_row [OF row] item by (simp add: tab_genome_row_def)
  with Cons.IH [OF rest] show ?case by simp
qed

lemma join_lines: "join sep (h # rows) = h @ concat (map (\<lambda>r. sep @ r) rows)"
  by (induction rows arbitrary: h) simp_all

lemma join_nonempty: "xs \<noteq> [] \<Longrightarrow> last xs \<noteq> [] \<Longrightarrow> join sep xs \<noteq> []"
  by (induction sep xs rule: join.induct) simp_all

lemma last_join:
  "xs \<noteq> [] \<Longrightarrow> last xs \<noteq> [] \<Longrightarrow> last (join sep xs) = last (last xs)"
proof (induction sep xs rule: join.induct)
  case (1 sep)
  then show ?case by simp
next
  case (2 sep x)
  then show ?case by simp
next
  case (3 sep x y ys)
  from "3.prems" have l: "last (y # ys) \<noteq> []" by simp
  with "3.IH" have ih: "last (join sep (y # ys)) = last (last (y # ys))" by simp
  have "join sep (y # ys) \<noteq> []"
    using l by (intro join_nonempty) simp_all
  with ih show ?case by simp
qed

lemma last_str_nat: "\<exists>d < 10. last (str_nat n) = digit_char d"
proof (cases "n < 10")
  case True
  then have "str_nat n = [digit_char n]" by (subst str_nat.simps) simp
  with True show ?thesis by auto
next
  case False
  then have "str_nat n = str_nat (n div 10) @ [digit_char (n mod 10)]"
    by (subst str_nat.simps) simp
  then have "last (str_nat n) = digit_char (n mod 10)" by simp
  moreover have "n mod 10 < 10" by simp
  ultimately show ?thesis by blast
qed

lemma digit_char_not_newline: "d < 10 \<Longrightarrow> digit_char d \<noteq> CHR 0x0A"
proof
  assume "d < 10" and "digit_char d = CHR 0x0A"
  then have "(48 + d :: nat) = of_char (CHR 0x0A)"
    using of_char_digit [of d] by simp
  then show False by simp
qed

lemma last_tab_genome_row: "last (tab_genome_row fwc fams item) \<noteq> CHR 0x0A"
proof (cases "fams = []")
  case True
  then show ?thesis by (simp add: tab_genome_row_def tab_def)
next
  case False
  define cells where "cells = map (\<lambda>family. str_nat (len_intersection (snd item)
                  (case map_of fwc family of None \<Rightarrow> [] | Some fcl \<Rightarrow> fcl))) fams"
  from False have ne: "cells \<noteq> []" by (simp add: cells_def)
  from False obtain n where n: "last cells = str_nat n"
    by (simp add: cells_def last_map)
  then have lne: "last cells \<noteq> []" by (simp add: str_nat_nonempty)
  from last_join [OF ne lne] n have "last (join tab cells) = last (str_nat n)" by simp
  moreover have "join tab cells \<noteq> []"
    using ne lne by (rule join_nonempty)
  moreover have "tab_genome_row fwc fams item = fst item @ tab @ join tab cells"
    by (simp add: tab_genome_row_def cells_def)
  ultimately have "last (tab_genome_row fwc fams item) = last (str_nat n)"
    by simp
  moreover obtain d where "d < 10" and "last (str_nat n) = digit_char d"
    using last_str_nat [of n] by blast
  ultimately show ?thesis
    using digit_char_not_newline [of d] by simp
qed

lemma tab_genome_row_nonempty: "tab_genome_row fwc fams item \<noteq> []"
  by (simp add: tab_genome_row_def tab_def)

lemma bigscape_matrix_text_shape:
  assumes "bigscape_matrix_text int_of fwc gtc = Inr doc"
  shows "\<exists>all_families.
           mset all_families = mset (keys fwc)
           \<and> doc = join [CHR 0x0A]
                     ((''#NAMES'' @ tab @ join tab all_families)
                      # map (tab_genome_row fwc all_families) (sorted_items gtc))
           \<and> (gtc \<noteq> [] \<longrightarrow> last doc \<noteq> CHR 0x0A)"
proof -
  from assms obtain keyed where keyed: "ints_of int_of (keys fwc) = Inr keyed"
    and rows: "matrix_rows fwc (map snd (sort_key fst keyed))
                 (''#NAMES'' @ tab @ join tab (map snd (sort_key fst keyed)))
                 (sorted_items gtc) = Inr doc"
    by (auto simp: bigscape_matrix_text_def Let_def split: sum.splits)
  define all_families where "all_families = map snd (sort_key fst keyed)"
  define header where "header = ''#NAMES'' @ tab @ join tab all_families"
  define lines where "lines = map (tab_genome_row fwc all_families) (sorted_items gtc)"
  have "mset all_families = mset (map snd keyed)"
    by (simp add: all_families_def)
  with ints_of_keys [OF keyed] have perm: "mset all_families = mset (keys fwc)"
    by simp
  from matrix_rows_text [OF rows [folded all_families_def]]
  have "doc = header @ concat (map (\<lambda>r. [CHR 0x0A] @ r) lines)"
    by (simp add: header_def lines_def o_def)
  then have doc: "doc = join [CHR 0x0A] (header # lines)"
    by (simp only: join_lines)
  have "last doc \<noteq> CHR 0x0A" if "gtc \<noteq> []"
  proof -
    have items: "sorted_items gtc \<noteq> []"
      using that length_sorted_items [of gtc] by auto
    then have ne: "lines \<noteq> []" by (simp add: lines_def)
    have "last lines = tab_genome_row fwc all_families (last (sorted_items gtc))"
      using items by (simp add: lines_def last_map)
    with ne have l: "last (header # lines)
                       = tab_genome_row fwc all_families (last (sorted_items gtc))"
      by simp
    have "last (header # lines) \<noteq> []"
      by (simp only: l tab_genome_row_nonempty not_False_eq_True)
    from last_join [OF _ this, of "[CHR 0x0A]"] l
    have "last doc = last (tab_genome_row fwc all_families (last (sorted_items gtc)))"
      by (simp add: doc)
    then show ?thesis by (simp only: last_tab_genome_row not_False_eq_True)
  qed
  with perm doc show ?thesis
    unfolding header_def lines_def by blast
qed

lemma csv_rows_end: "rows \<noteq> [] \<Longrightarrow> concat (map csv_row rows) \<noteq> []
                       \<and> last (concat (map csv_row rows)) = CHR 0x0A"
  by (induction rows rule: rev_induct) (simp_all add: csv_row_def)

lemma csv_document_shape:
  assumes "doc = ''#NAMES'' @ to_csv df" and "df_index df = idx"
  shows "doc = ''#NAMES'' @ csv_row ('''' # keys (df_columns df))
                 @ concat (map (csv_genome_row df) [0..<length idx])
         \<and> last doc = CHR 0x0A"
proof -
  have row: "csv_genome_row df = (\<lambda>i. csv_row (frame_row df i))"
    by (simp add: fun_eq_iff csv_genome_row_def)
  have shape: "to_csv df = csv_row ('''' # keys (df_columns df))
                      @ concat (map (csv_genome_row df) [0..<length idx])"
    by (simp add: to_csv_def row o_def assms(2))
  have "to_csv df \<noteq> [] \<and> last (to_csv df) = CHR 0x0A"
    unfolding to_csv_def by (rule csv_rows_end) simp
  then have "last (''#NAMES'' @ to_csv df) = CHR 0x0A"
    by simp
  with shape assms(1) show ?thesis by simp
qed

lemma absence_presence_frame_index:
  "absence_presence_frame leaves_of fwn cig = Inr df \<Longrightarrow> df_index df = sort (keys cig)"
  using absence_presence_frame_shape [of leaves_of fwn cig df] by auto

lemma preordered_frame_index:
  "preordered_frame fwn cig order = Inr df \<Longrightarrow> df_index df = sort (keys cig)"
  using preordered_frame_shape [of fwn cig order df] by auto

text \<open>
  Claim C7, as the code has it. Every serialization starts with \<open>#NAMES\<close> and the
  family names and has one row for each genome, in sorted order: the genome's name and
  then its count for every family. \<open>get_preordered_matrix\<close> and
  \<open>get_absence_presence_matrix\<close> separate with commas and end every row, the last one
  too, with a line feed. The tab-separated text of \<open>bigscape_to_matrix\<close> puts a line
  feed between rows only, and with at least one genome it does not end with one.
\<close>

theorem serialized_matrix_shape:
  "(get_preordered_matrix families_with_names clusters_in_genomes family_order = Inr csv_doc
      \<longrightarrow> (\<exists>df. preordered_frame families_with_names clusters_in_genomes family_order = Inr df
                \<and> df_index df = sort (keys clusters_in_genomes)
                \<and> csv_doc = ''#NAMES'' @ csv_row ('''' # keys (df_columns df))
                              @ concat (map (csv_genome_row df)
                                          [0..<length (sort (keys clusters_in_genomes))])
                \<and> last csv_doc = CHR 0x0A))
   \<and> (get_absence_presence_matrix leaves_of families_with_names clusters_in_genomes
         = Inr clustered_doc
      \<longrightarrow> (\<exists>df. absence_presence_frame leaves_of families_with_names clusters_in_genomes = Inr df
                \<and> df_index df = sort (keys clusters_in_genomes)
                \<and> clustered_doc = ''#NAMES'' @ csv_row ('''' # keys (df_columns df))
                                    @ concat (map (csv_genome_row df)
                                                [0..<length (sort (keys clusters_in_genomes))])
                \<and> last clustered_doc = CHR 0x0A))
   \<and> (bigscape_matrix_text int_of families_with_clusters genomes_to_clusters = Inr tab_doc
      \<longrightarrow> (\<exists>all_families.
             mset all_families = mset (keys families_with_clusters)
             \<and> tab_doc = join [CHR 0x0A]
                           ((''#NAMES'' @ tab @ join tab all_families)
                            # map (tab_genome_row families_with_clusters all_families)
                                  (sorted_items genomes_to_clusters))
             \<and> (genomes_to_clusters \<noteq> [] \<longrightarrow> last tab_doc \<noteq> CHR 0x0A)))"
proof (intro conjI impI)
  assume "get_preordered_matrix families_with_names clusters_in_genomes family_order = Inr csv_doc"
  then obtain df where
    df: "preordered_frame families_with_names clusters_in_genomes family_order = Inr df"
    and doc: "csv_doc = ''#NAMES'' @ to_csv df"
    by (auto simp: get_preordered_matrix_def split: sum.splits)
  from csv_document_shape [OF doc preordered_frame_index [OF df]]
    df preordered_frame_index [OF df]
  show "\<exists>df. preordered_frame families_with_names clusters_in_genomes family_order = Inr df
                \<and> df_index df = sort (keys clusters_in_genomes)
                \<and> csv_doc = ''#NAMES'' @ csv_row ('''' # keys (df_columns df))
                              @ concat (map (csv_genome_row df)
                                          [0..<length (sort (keys clusters_in_genomes))])
                \<and> last csv_doc = CHR 0x0A"
    by blast
next
  assume "get_absence_presence_matrix leaves_of families_with_names clusters_in_genomes
            = Inr clustered_doc"
  then obtain df where
    df: "absence_presence_frame leaves_of families_with_names clusters_in_genomes = Inr df"
    and doc: "clustered_doc = ''#NAMES'' @ to_csv df"
    by (auto simp: get_absence_presence_matrix_def split: sum.splits)
  from csv_document_shape [OF doc absence_presence_frame_index [OF df]]
    df absence_presence_frame_index [OF df]
  show "\<exists>df. absence_presence_frame leaves_of families_with_names clusters_in_genomes = Inr df
                \<and> df_index df = sort (keys clusters_in_genomes)
                \<and> clustered_doc = ''#NAMES'' @ csv_row ('''' # keys (df_columns df))
                                    @ concat (map (csv_genome_row df)
                                                [0..<length (sort (keys clusters_in_genomes))])
                \<and> last clustered_doc = CHR 0x0A"
    by blast
next
  assume "bigscape_matrix_text int_of families_with_clusters genomes_to_clusters = Inr tab_doc"
  then show "\<exists>all_families.
             mset all_families = mset (keys families_with_clusters)
             \<and> tab_doc = join [CHR 0x0A]
                           ((''#NAMES'' @ tab @ join tab all_families)
                            # map (tab_genome_row families_with_clusters all_families)
                                  (sorted_items genomes_to_clusters))
             \<and> (genomes_to_clusters \<noteq> [] \<longrightarrow> last tab_doc \<noteq> CHR 0x0A)"
    by (rule bigscape_matrix_text_shape)
qed

text \<open>
  The three serializations on the dictionaries of the tests: the two comma-separated
  documents end with a line feed, the tab-separated one does not.
\<close>

theorem serialized_matrix_shape_witness:
  "get_preordered_matrix fake_families fake_genomes [''2'', ''1''] =
     Inr ''#NAMES,2_test,1_test\<newline>Test_org_1,0,1\<newline>Test_org_2,1,1\<newline>Test_org_3,1,0\<newline>''
   \<and> get_absence_presence_matrix leaves_in_order fake_families fake_genomes =
       Inr ''#NAMES,1_test,2_test\<newline>Test_org_1,1,0\<newline>Test_org_2,1,1\<newline>Test_org_3,0,1\<newline>''
   \<and> bigscape_matrix_text digit_of numbered_families fake_genomes =
       Inr (''#NAMES'' @ tab @ ''1'' @ tab @ ''2\<newline>Test_org_1'' @ tab @ ''1'' @ tab
            @ ''0\<newline>Test_org_2'' @ tab @ ''1'' @ tab @ ''1\<newline>Test_org_3'' @ tab @ ''0''
            @ tab @ ''1'')
   \<and> fake_genomes \<noteq> []
   \<and> last ''#NAMES,2_test,1_test\<newline>Test_org_1,0,1\<newline>Test_org_2,1,1\<newline>Test_org_3,1,0\<newline>''
       = CHR 0x0A
   \<and> last ''#NAMES,1_test,2_test\<newline>Test_org_1,1,0\<newline>Test_org_2,1,1\<newline>Test_org_3,0,1\<newline>''
       = CHR 0x0A
   \<and> last (''#NAMES'' @ tab @ ''1'' @ tab @ ''2\<newline>Test_org_1'' @ tab @ ''1'' @ tab
            @ ''0\<newline>Test_org_2'' @ tab @ ''1'' @ tab @ ''1\<newline>Test_org_3'' @ tab @ ''0''
            @ tab @ ''1'')
       \<noteq> CHR 0x0A"
proof -
  let ?csv = "''#NAMES,2_test,1_test\<newline>Test_org_1,0,1\<newline>Test_org_2,1,1\<newline>Test_org_3,1,0\<newline>''"
  let ?clustered = "''#NAMES,1_test,2_test\<newline>Test_org_1,1,0\<newline>Test_org_2,1,1\<newline>Test_org_3,0,1\<newline>''"
  let ?tabbed = "''#NAMES'' @ tab @ ''1'' @ tab @ ''2\<newline>Test_org_1'' @ tab @ ''1'' @ tab
            @ ''0\<newline>Test_org_2'' @ tab @ ''1'' @ tab @ ''1\<newline>Test_org_3'' @ tab @ ''0''
            @ tab @ ''1''"
  have csv: "get_preordered_matrix fake_families fake_genomes [''2'', ''1''] = Inr ?csv"
    by code_simp
  have clustered:
    "get_absence_presence_matrix leaves_in_order fake_families fake_genomes = Inr ?clustered"
    by code_simp
  have tabbed: "bigscape_matrix_text digit_of numbered_families fake_genomes = Inr ?tabbed"
    by code_simp
  have genomes: "fake_genomes \<noteq> []"
    by (simp add: fake_genomes_def)
  note shape = serialized_matrix_shape
    [where families_with_names = fake_families and clusters_in_genomes = fake_genomes
       and family_order = "[''2'', ''1'']" and csv_doc = ?csv
       and leaves_of = leaves_in_order and clustered_doc = ?clustered
       and int_of = digit_of and families_with_clusters = numbered_families
       and genomes_to_clusters = fake_genomes and tab_doc = ?tabbed]
  from shape csv have "last ?csv = CHR 0x0A" by blast
  moreover from shape clustered have "last ?clustered = CHR 0x0A" by blast
  moreover from shape tabbed genomes have "last ?tabbed \<noteq> CHR 0x0A" by blast
  ultimately show ?thesis
    using csv clustered tabbed genomes by blast
qed

text \<open>
  The claim as written has no line feed at the end of either variant. The
  comma-separated documents of the repository's two matrix tests end with one.
\<close>

theorem csv_matrix_ends_with_newline:
  "get_absence_presence_matrix leaves_in_order fake_families fake_genomes =
     Inr ''#NAMES,1_test,2_test\<newline>Test_org_1,1,0\<newline>Test_org_2,1,1\<newline>Test_org_3,0,1\<newline>''
   \<and> get_preordered_matrix fake_families fake_genomes [''2'', ''1''] =
       Inr ''#NAMES,2_test,1_test\<newline>Test_org_1,0,1\<newline>Test_org_2,1,1\<newline>Test_org_3,1,0\<newline>''"
proof -
  have "get_absence_presence_matrix leaves_in_order fake_families fake_genomes =
     Inr ''#NAMES,1_test,2_test\<newline>Test_org_1,1,0\<newline>Test_org_2,1,1\<newline>Test_org_3,0,1\<newline>''"
    by code_simp
  moreover have "get_preordered_matrix fake_families fake_genomes [''2'', ''1''] =
       Inr ''#NAMES,2_test,1_test\<newline>Test_org_1,0,1\<newline>Test_org_2,1,1\<newline>Test_org_3,1,0\<newline>''"
    by code_simp
  ultimately show ?thesis by blast
qed

end
